theory Spec2Isabelle
  imports Complex_Main
begin

section \<open>Data model\<close>

text \<open>
  The Mongoose schema \<^verbatim>\<open>Image\<close> (models/Image.js), restricted to the fields the
  embedding pipeline, the upload handlers, the delete handler and the search handler
  read or write. Dates are milliseconds since the epoch; an absent optional field
  is \<open>None\<close>. File size, MIME type, dimensions, description, tags, location and the
  public flag are stored by the handlers but never read by the code below; they are
  left out.

  A JavaScript string that carries data (a query, a title, a file name, an id of the
  index) is the list of its UTF-16 code units. The messages of errors and responses,
  which the code only builds from and compares with ASCII literals, are HOL strings.
\<close>

type_synonym objectId = nat
type_synonym timestamp = int
type_synonym vector = "real list"
type_synonym js_string = "nat list"

datatype embedding_status = Pending | Processing | Completed | Failed

record image =
  image_id :: objectId
  filename :: js_string
  originalName :: js_string
  filePath :: js_string
  title :: js_string
  qdrantId :: js_string
  owner :: objectId
  isEmbedded :: bool
  embeddingStatus :: embedding_status
  embeddingError :: "string option"
  embeddingAttempts :: nat
  lastEmbeddingAttempt :: "timestamp option"
  uploadDate :: timestamp
  createdAt :: timestamp

text \<open>The \<^verbatim>\<open>Collection\<close> schema (models/Collection.js): the image references only.\<close>

record collection =
  collection_id :: objectId
  collection_images :: "objectId list"

text \<open>A point of the Qdrant collection: the vector and the payload the handlers write.\<close>

record qpoint =
  qvector :: vector
  payload_imageId :: "objectId option"
  payload_userId :: objectId
  payload_filename :: js_string

text \<open>One entry of a Qdrant search result: \<^verbatim>\<open>result.payload.imageId\<close>, \<^verbatim>\<open>result.score\<close>.\<close>

record hit =
  hit_imageId :: "objectId option"
  hit_score :: real

text \<open>A JavaScript \<^verbatim>\<open>Error\<close>: its message and, for HTTP client errors, a status.\<close>

datatype js_error = Error (message: string) (status: "nat option")

section \<open>Process state and environment\<close>

text \<open>
  The module-level variables of the process and the contents of the three stores.
  \<open>clock\<close> counts the \<^verbatim>\<open>await\<close>s executed so far; the environment answers each
  external call as a function of it, so that the same call may succeed once and fail
  later.
\<close>

record server =
  clock :: nat
  images :: "image list"
  collections :: "collection list"
  qpoints :: "(js_string \<times> qpoint) list"
  qdrantClient :: bool
  isQdrantAvailable :: bool
  reconnectScheduled :: bool
  isAIModelAvailable :: bool
  isMongoConnected :: bool
  isProcessing :: bool
  uuidCount :: nat

text \<open>
  What the outside world does: which record-store, vector-index, storage and model calls
  throw, what the model and the nearest-neighbour search return, what time it is, and
  what other tasks of the event loop do to the process while a handler is suspended at
  an \<^verbatim>\<open>await\<close> (\<open>onAwait\<close>). Library functions whose code is not part of the
  repository (\<^verbatim>\<open>path.extname\<close>, \<^verbatim>\<open>path.basename\<close>, \<^verbatim>\<open>uuidv4\<close>, the regular
  expression matcher of the record store, \<^verbatim>\<open>Date.prototype.setHours\<close>) are
  parameters as well, and so is the double-precision arithmetic of the percentage in
  the statistics: \<open>roundedPercentage w embedded total\<close> stands for
  \<^verbatim>\<open>Math.round((embedded / total) * 100)\<close>.
\<close>

record world =
  wallClock :: "nat \<Rightarrow> timestamp"
  dbFault :: "nat \<Rightarrow> js_error option"
  newObjectId :: "nat \<Rightarrow> objectId"
  qdrantFault :: "nat \<Rightarrow> js_error option"
  qdrantSearch :: "nat \<Rightarrow> (js_string \<times> qpoint) list \<Rightarrow> vector \<Rightarrow> int \<Rightarrow> hit list"
  storageFault :: "nat \<Rightarrow> js_error option"
  blobUrl :: "js_string \<Rightarrow> js_string"
  imageMetadataFault :: "nat \<Rightarrow> js_error option"
  embedImage :: "nat \<Rightarrow> js_string \<Rightarrow> js_error + vector"
  embedText :: "nat \<Rightarrow> js_string \<Rightarrow> js_error + vector"
  uuidv4 :: "nat \<Rightarrow> js_string"
  extname :: "js_string \<Rightarrow> js_string"
  basename :: "js_string \<Rightarrow> js_string \<Rightarrow> js_string"
  regexTest :: "js_string \<Rightarrow> js_string \<Rightarrow> bool"
  endOfDay :: "timestamp \<Rightarrow> timestamp"
  roundedPercentage :: "nat \<Rightarrow> nat \<Rightarrow> nat"
  onAwait :: "nat \<Rightarrow> server \<Rightarrow> server"

text \<open>
  An asynchronous operation: it runs on the process state and either throws (rejects,
  \<open>Inl\<close>) or returns a value (\<open>Inr\<close>), leaving a new state.
\<close>

type_synonym 'a io = "server \<Rightarrow> (js_error + 'a) \<times> server"

text \<open>Suspending at an \<^verbatim>\<open>await\<close>: the clock advances and the other tasks run.\<close>

definition await :: "world \<Rightarrow> server \<Rightarrow> server" where
  "await w s = onAwait w (clock s) (s\<lparr>clock := Suc (clock s)\<rparr>)"

text \<open>No other task touches the process while a handler is suspended.\<close>

definition quiet :: "world \<Rightarrow> bool" where
  "quiet w \<longleftrightarrow> (\<forall>k s. onAwait w k s = s)"

section \<open>Record store (Mongoose)\<close>

fun updateFirst :: "objectId \<Rightarrow> (image \<Rightarrow> image) \<Rightarrow> image list \<Rightarrow> image list" where
  "updateFirst i f [] = []"
| "updateFirst i f (x # xs) = (if image_id x = i then f x # xs else x # updateFirst i f xs)"

fun deleteFirst :: "objectId \<Rightarrow> image list \<Rightarrow> image list" where
  "deleteFirst i [] = []"
| "deleteFirst i (x # xs) = (if image_id x = i then xs else x # deleteFirst i xs)"

text \<open>\<^verbatim>\<open>Image.findByIdAndUpdate(id, update)\<close>; no document with that id is not an error.\<close>

definition findByIdAndUpdate :: "world \<Rightarrow> objectId \<Rightarrow> (image \<Rightarrow> image) \<Rightarrow> unit io" where
  "findByIdAndUpdate w i f s =
     (case dbFault w (clock s) of
        Some e \<Rightarrow> (Inl e, await w s)
      | None \<Rightarrow> (Inr (), await w (s\<lparr>images := updateFirst i f (images s)\<rparr>)))"

text \<open>\<^verbatim>\<open>Image.find(query)\<close> in the store's natural order.\<close>

definition Image_find :: "world \<Rightarrow> (image \<Rightarrow> bool) \<Rightarrow> image list io" where
  "Image_find w q s =
     (case dbFault w (clock s) of
        Some e \<Rightarrow> (Inl e, await w s)
      | None \<Rightarrow> (Inr (filter q (images s)), await w s))"

text \<open>\<^verbatim>\<open>Image.find(query).limit(n)\<close> for a positive literal \<open>n\<close>.\<close>

definition Image_find_limit :: "world \<Rightarrow> (image \<Rightarrow> bool) \<Rightarrow> nat \<Rightarrow> image list io" where
  "Image_find_limit w q n s =
     (case dbFault w (clock s) of
        Some e \<Rightarrow> (Inl e, await w s)
      | None \<Rightarrow> (Inr (take n (filter q (images s))), await w s))"

definition countDocuments :: "world \<Rightarrow> (image \<Rightarrow> bool) \<Rightarrow> nat io" where
  "countDocuments w q s =
     (case dbFault w (clock s) of
        Some e \<Rightarrow> (Inl e, await w s)
      | None \<Rightarrow> (Inr (length (filter q (images s))), await w s))"

section \<open>Model and vector-index gateways\<close>

text \<open>aiService.js, \<^verbatim>\<open>isAIModelReady\<close>: the flag and the four loaded parts, as one flag.\<close>

definition isAIModelReady :: "server \<Rightarrow> bool" where
  "isAIModelReady s = isAIModelAvailable s"

definition generateImageEmbedding :: "world \<Rightarrow> js_string \<Rightarrow> vector io" where
  "generateImageEmbedding w path s = (embedImage w (clock s) path, await w s)"

definition generateTextEmbedding :: "world \<Rightarrow> js_string \<Rightarrow> vector io" where
  "generateTextEmbedding w text s = (embedText w (clock s) text, await w s)"

text \<open>config/qdrant.js\<close>

definition isQdrantConnected :: "server \<Rightarrow> bool" where
  "isQdrantConnected s = isQdrantAvailable s"

definition checkQdrantHealth :: "world \<Rightarrow> server \<Rightarrow> bool \<times> server" where
  "checkQdrantHealth w s =
     (if \<not> qdrantClient s then (False, s)
      else
        (case qdrantFault w (clock s) of
           None \<Rightarrow>
             (let s1 = await w s
              in (True, if \<not> isQdrantAvailable s1 then s1\<lparr>isQdrantAvailable := True\<rparr> else s1))
         | Some e \<Rightarrow>
             (let s1 = await w s
              in (False,
                  if isQdrantAvailable s1
                  then s1\<lparr>isQdrantAvailable := False, reconnectScheduled := True\<rparr>
                  else s1))))"

fun upsertPoint ::
  "js_string \<Rightarrow> qpoint \<Rightarrow> (js_string \<times> qpoint) list \<Rightarrow> (js_string \<times> qpoint) list" where
  "upsertPoint k p [] = [(k, p)]"
| "upsertPoint k p (x # xs) = (if fst x = k then (k, p) # xs else x # upsertPoint k p xs)"

text \<open>\<^verbatim>\<open>qdrant.upsert(collection, {wait: true, points: [{id, vector, payload}]})\<close>\<close>

definition qdrant_upsert :: "world \<Rightarrow> js_string \<Rightarrow> qpoint \<Rightarrow> unit io" where
  "qdrant_upsert w k p s =
     (case qdrantFault w (clock s) of
        Some e \<Rightarrow> (Inl e, await w s)
      | None \<Rightarrow> (Inr (), await w (s\<lparr>qpoints := upsertPoint k p (qpoints s)\<rparr>)))"

section \<open>Embedding pipeline (services/embeddingProcessor.js)\<close>

definition MAX_EMBEDDING_ATTEMPTS :: nat where
  "MAX_EMBEDDING_ATTEMPTS = 5"

definition RETRY_DELAY :: int where
  "RETRY_DELAY = 60000"

text \<open>The three partial updates \<^verbatim>\<open>processImageEmbedding\<close> writes.\<close>

definition markProcessing :: "timestamp \<Rightarrow> image \<Rightarrow> image" where
  "markProcessing now i =
     i\<lparr>embeddingStatus := Processing,
       lastEmbeddingAttempt := Some now,
       embeddingAttempts := embeddingAttempts i + 1\<rparr>"

definition markCompleted :: "image \<Rightarrow> image" where
  "markCompleted i = i\<lparr>isEmbedded := True, embeddingStatus := Completed, embeddingError := None\<rparr>"

definition markFailed :: "string \<Rightarrow> image \<Rightarrow> image" where
  "markFailed msg i = i\<lparr>embeddingStatus := Failed, embeddingError := Some msg\<rparr>"

text \<open>Lines 27 to 48: \<^verbatim>\<open>if (isQdrantConnected()) { await checkQdrantHealth(); ... upsert ... }\<close>\<close>

definition storeInQdrant :: "world \<Rightarrow> image \<Rightarrow> vector \<Rightarrow> unit io" where
  "storeInQdrant w img embedding s =
     (if isQdrantConnected s then
        (case checkQdrantHealth w s of
           (healthy, s1) \<Rightarrow>
             if qdrantClient s1 then
               qdrant_upsert w (qdrantId img)
                 \<lparr>qvector = embedding, payload_imageId = Some (image_id img),
                  payload_userId = owner img, payload_filename = filename img\<rparr> s1
             else (Inr (), s1))
      else (Inr (), s))"

text \<open>The \<^verbatim>\<open>try\<close> block of \<^verbatim>\<open>processImageEmbedding\<close>, lines 14 to 58.\<close>

definition embedAndStore :: "world \<Rightarrow> image \<Rightarrow> unit io" where
  "embedAndStore w img s =
     (case findByIdAndUpdate w (image_id img) (markProcessing (wallClock w (clock s))) s of
        (Inl e, s1) \<Rightarrow> (Inl e, s1)
      | (Inr u, s1) \<Rightarrow>
          (case generateImageEmbedding w (filePath img) s1 of
             (Inl e, s2) \<Rightarrow> (Inl e, s2)
           | (Inr embedding, s2) \<Rightarrow>
               (case storeInQdrant w img embedding s2 of
                  (Inl e, s3) \<Rightarrow> (Inl e, s3)
                | (Inr u', s3) \<Rightarrow> findByIdAndUpdate w (image_id img) markCompleted s3)))"

text \<open>
  \<^verbatim>\<open>processImageEmbedding\<close>: resolves to true or false; rejects only when the update in
  the \<^verbatim>\<open>catch\<close> block itself throws.
\<close>

definition processImageEmbedding :: "world \<Rightarrow> image \<Rightarrow> bool io" where
  "processImageEmbedding w img s =
     (case embedAndStore w img s of
        (Inr u, s1) \<Rightarrow> (Inr True, s1)
      | (Inl error, s1) \<Rightarrow>
          (case findByIdAndUpdate w (image_id img) (markFailed (message error)) s1 of
             (Inl e, s2) \<Rightarrow> (Inl e, s2)
           | (Inr u, s2) \<Rightarrow> (Inr False, s2)))"

text \<open>The query of lines 90 to 101.\<close>

definition needsEmbedding :: "timestamp \<Rightarrow> image \<Rightarrow> bool" where
  "needsEmbedding now i \<longleftrightarrow>
     embeddingStatus i = Pending \<or>
     (embeddingStatus i = Failed \<and>
      embeddingAttempts i < MAX_EMBEDDING_ATTEMPTS \<and>
      (case lastEmbeddingAttempt i of
         None \<Rightarrow> True
       | Some t \<Rightarrow> t < now - RETRY_DELAY))"

text \<open>The query of lines 128 to 131.\<close>

definition stillNeedsEmbedding :: "image \<Rightarrow> bool" where
  "stillNeedsEmbedding i \<longleftrightarrow>
     (embeddingStatus i = Pending \<or> embeddingStatus i = Failed) \<and>
     embeddingAttempts i < MAX_EMBEDDING_ATTEMPTS"

text \<open>The \<^verbatim>\<open>for ... of\<close> loop, lines 113 to 123, with its two counters.\<close>

fun processBatch :: "world \<Rightarrow> image list \<Rightarrow> nat \<times> nat \<Rightarrow> (nat \<times> nat) io" where
  "processBatch w [] counts s = (Inr counts, s)"
| "processBatch w (img # rest) counts s =
     (case processImageEmbedding w img s of
        (Inl e, s1) \<Rightarrow> (Inl e, s1)
      | (Inr success, s1) \<Rightarrow>
          processBatch w rest
            (if success then (fst counts + 1, snd counts) else (fst counts, snd counts + 1)) s1)"

text \<open>The \<^verbatim>\<open>try\<close> block of \<^verbatim>\<open>processPendingEmbeddings\<close>, lines 88 to 135.\<close>

definition drainBatch :: "world \<Rightarrow> unit io" where
  "drainBatch w s =
     (case Image_find_limit w (needsEmbedding (wallClock w (clock s))) 10 s of
        (Inl e, s1) \<Rightarrow> (Inl e, s1)
      | (Inr imagesToProcess, s1) \<Rightarrow>
          if length imagesToProcess = 0 then (Inr (), s1\<lparr>isProcessing := False\<rparr>)
          else
            (case processBatch w imagesToProcess (0, 0) s1 of
               (Inl e, s2) \<Rightarrow> (Inl e, s2)
             | (Inr counts, s2) \<Rightarrow>
                 (case countDocuments w stillNeedsEmbedding s2 of
                    (Inl e, s3) \<Rightarrow> (Inl e, s3)
                  | (Inr remainingCount, s3) \<Rightarrow> (Inr (), s3))))"

text \<open>
  \<^verbatim>\<open>processPendingEmbeddings\<close>: the two early returns, the guard, the \<^verbatim>\<open>try\<close> block
  whose error is only logged, and the \<^verbatim>\<open>finally\<close> that clears the guard. The promise
  never rejects, so the result is the state alone.
\<close>

definition processPendingEmbeddings :: "world \<Rightarrow> server \<Rightarrow> server" where
  "processPendingEmbeddings w s =
     (if isProcessing s then s
      else if \<not> isAIModelReady s then s
      else
        (case drainBatch w (s\<lparr>isProcessing := True\<rparr>) of
           (r, s1) \<Rightarrow> s1\<lparr>isProcessing := False\<rparr>))"

text \<open>
  \<^verbatim>\<open>getEmbeddingStats\<close>: five counts issued together under one \<^verbatim>\<open>Promise.all\<close>,
  and the percentage, 0 for an empty scope.
\<close>

record embedding_stats =
  stats_total :: nat
  stats_embedded :: nat
  stats_pending :: nat
  stats_processing :: nat
  stats_failed :: nat
  stats_percentage :: nat

definition inScope :: "objectId option \<Rightarrow> image \<Rightarrow> bool" where
  "inScope userId i = (case userId of None \<Rightarrow> True | Some u \<Rightarrow> owner i = u)"

definition statsOf :: "world \<Rightarrow> objectId option \<Rightarrow> image list \<Rightarrow> embedding_stats" where
  "statsOf w userId db =
     (let total = length (filter (inScope userId) db);
          embedded = length (filter (\<lambda>i. inScope userId i \<and> isEmbedded i) db);
          pending = length (filter (\<lambda>i. inScope userId i \<and> embeddingStatus i = Pending) db);
          processing = length (filter (\<lambda>i. inScope userId i \<and> embeddingStatus i = Processing) db);
          failed = length (filter (\<lambda>i. inScope userId i \<and> embeddingStatus i = Failed \<and>
                     embeddingAttempts i < MAX_EMBEDDING_ATTEMPTS) db)
      in \<lparr>stats_total = total, stats_embedded = embedded, stats_pending = pending,
          stats_processing = processing, stats_failed = failed,
          stats_percentage = (if total > 0 then roundedPercentage w embedded total else 0)\<rparr>)"

definition getEmbeddingStats :: "world \<Rightarrow> objectId option \<Rightarrow> embedding_stats io" where
  "getEmbeddingStats w userId s =
     (case dbFault w (clock s) of
        Some e \<Rightarrow> (Inl e, await w s)
      | None \<Rightarrow> (Inr (statsOf w userId (images s)), await w s))"

section \<open>Remaining gateway calls\<close>

text \<open>\<^verbatim>\<open>Image.create(doc)\<close>: the store assigns the id and the timestamps.\<close>

definition Image_create :: "world \<Rightarrow> (objectId \<Rightarrow> timestamp \<Rightarrow> image) \<Rightarrow> image io" where
  "Image_create w mk s =
     (case dbFault w (clock s) of
        Some e \<Rightarrow> (Inl e, await w s)
      | None \<Rightarrow>
          (let doc = mk (newObjectId w (clock s)) (wallClock w (clock s))
           in (Inr doc, await w (s\<lparr>images := images s @ [doc]\<rparr>))))"

definition Image_findById :: "world \<Rightarrow> objectId \<Rightarrow> image option io" where
  "Image_findById w i s =
     (case dbFault w (clock s) of
        Some e \<Rightarrow> (Inl e, await w s)
      | None \<Rightarrow> (Inr (find (\<lambda>x. image_id x = i) (images s)), await w s))"

text \<open>\<^verbatim>\<open>image.deleteOne()\<close>\<close>

definition Image_deleteOne :: "world \<Rightarrow> objectId \<Rightarrow> unit io" where
  "Image_deleteOne w i s =
     (case dbFault w (clock s) of
        Some e \<Rightarrow> (Inl e, await w s)
      | None \<Rightarrow> (Inr (), await w (s\<lparr>images := deleteFirst i (images s)\<rparr>)))"

text \<open>\<^verbatim>\<open>Collection.updateMany({images: id}, {$pull: {images: id}})\<close>\<close>

definition Collection_pull :: "world \<Rightarrow> objectId \<Rightarrow> unit io" where
  "Collection_pull w i s =
     (case dbFault w (clock s) of
        Some e \<Rightarrow> (Inl e, await w s)
      | None \<Rightarrow>
          (Inr (),
           await w (s\<lparr>collections :=
             map (\<lambda>c. c\<lparr>collection_images := removeAll i (collection_images c)\<rparr>)
               (collections s)\<rparr>)))"

text \<open>services/storageService.js\<close>

definition storage_saveFile :: "world \<Rightarrow> js_string \<Rightarrow> js_string io" where
  "storage_saveFile w fname s =
     (case storageFault w (clock s) of
        Some e \<Rightarrow> (Inl e, await w s)
      | None \<Rightarrow> (Inr (blobUrl w fname), await w s))"

definition storage_deleteFile :: "world \<Rightarrow> js_string \<Rightarrow> unit io" where
  "storage_deleteFile w url s =
     (case storageFault w (clock s) of
        Some e \<Rightarrow> (Inl e, await w s)
      | None \<Rightarrow> (Inr (), await w s))"

text \<open>aiService.js, \<^verbatim>\<open>getImageMetadata\<close>: the dimensions are not kept in this model.\<close>

definition getImageMetadata :: "world \<Rightarrow> js_string \<Rightarrow> unit io" where
  "getImageMetadata w path s =
     (case imageMetadataFault w (clock s) of
        Some e \<Rightarrow> (Inl (Error (''Failed to get image metadata: '' @ message e) None), await w s)
      | None \<Rightarrow> (Inr (), await w s))"

definition nextUuid :: "world \<Rightarrow> server \<Rightarrow> js_string \<times> server" where
  "nextUuid w s = (uuidv4 w (uuidCount s), s\<lparr>uuidCount := Suc (uuidCount s)\<rparr>)"

text \<open>Further calls of the Qdrant client.\<close>

definition qdrant_setPayload :: "world \<Rightarrow> js_string \<Rightarrow> objectId \<Rightarrow> unit io" where
  "qdrant_setPayload w k i s =
     (case qdrantFault w (clock s) of
        Some e \<Rightarrow> (Inl e, await w s)
      | None \<Rightarrow>
          (Inr (),
           await w (s\<lparr>qpoints :=
             map (\<lambda>kp. if fst kp = k then (k, (snd kp)\<lparr>payload_imageId := Some i\<rparr>) else kp)
               (qpoints s)\<rparr>)))"

definition qdrant_delete :: "world \<Rightarrow> js_string \<Rightarrow> unit io" where
  "qdrant_delete w k s =
     (case qdrantFault w (clock s) of
        Some e \<Rightarrow> (Inl e, await w s)
      | None \<Rightarrow> (Inr (), await w (s\<lparr>qpoints := filter (\<lambda>kp. fst kp \<noteq> k) (qpoints s)\<rparr>)))"

text \<open>\<^verbatim>\<open>qdrant.getCollection(name)\<close>, reduced to \<^verbatim>\<open>points_count\<close>.\<close>

definition qdrant_getCollection :: "world \<Rightarrow> nat io" where
  "qdrant_getCollection w s =
     (case qdrantFault w (clock s) of
        Some e \<Rightarrow> (Inl e, await w s)
      | None \<Rightarrow> (Inr (length (qpoints s)), await w s))"

definition qdrant_search :: "world \<Rightarrow> vector \<Rightarrow> int \<Rightarrow> hit list io" where
  "qdrant_search w v k s =
     (case qdrantFault w (clock s) of
        Some e \<Rightarrow> (Inl e, await w s)
      | None \<Rightarrow> (Inr (qdrantSearch w (clock s) (qpoints s) v k), await w s))"

section \<open>Requests, responses and JavaScript helpers\<close>

text \<open>
  The JSON body of a response, reduced to the fields the handlers below set. The warning
  of the search handler is kept as the count it reports.
\<close>

record response =
  res_status :: nat
  res_success :: bool
  res_message :: "string option"
  res_error :: "string option"
  res_searchType :: "string option"
  res_images :: "image list option"
  res_uploadErrors :: "(js_string \<times> string) list"
  res_unembeddedCount :: "nat option"
  res_warning :: "nat option"

definition reply :: "nat \<Rightarrow> bool \<Rightarrow> string option \<Rightarrow> response" where
  "reply code ok msg =
     \<lparr>res_status = code, res_success = ok, res_message = msg, res_error = None,
      res_searchType = None, res_images = None, res_uploadErrors = [],
      res_unembeddedCount = None, res_warning = None\<rparr>"

fun startsWith :: "string \<Rightarrow> string \<Rightarrow> bool" where
  "startsWith xs [] = True"
| "startsWith [] (y # ys) = False"
| "startsWith (x # xs) (y # ys) = (x = y \<and> startsWith xs ys)"

text \<open>\<^verbatim>\<open>String.prototype.includes\<close>\<close>

fun js_includes :: "string \<Rightarrow> string \<Rightarrow> bool" where
  "js_includes [] pat = (pat = [])"
| "js_includes (x # xs) pat = (startsWith (x # xs) pat \<or> js_includes xs pat)"

text \<open>
  \<^verbatim>\<open>String.prototype.trim\<close>: it strips the code points of ECMAScript's WhiteSpace and
  LineTerminator productions from both ends. These are tab, line feed, vertical tab,
  form feed, carriage return, space, no-break space, U+1680, U+2000 to U+200A, the line
  and paragraph separators U+2028 and U+2029, U+202F, U+205F, U+3000 and the byte order
  mark U+FEFF; each is a single code unit.
\<close>

definition isWhitespace :: "nat \<Rightarrow> bool" where
  "isWhitespace c \<longleftrightarrow>
     c \<in> set [0x09, 0x0A, 0x0B, 0x0C, 0x0D, 0x20, 0xA0, 0x1680, 0x2028, 0x2029, 0x202F,
               0x205F, 0x3000, 0xFEFF] \<or>
     (0x2000 \<le> c \<and> c \<le> 0x200A)"

definition trim :: "js_string \<Rightarrow> js_string" where
  "trim x = rev (dropWhile isWhitespace (rev (dropWhile isWhitespace x)))"

text \<open>\<^verbatim>\<open>Array.prototype.slice(0, n)\<close>\<close>

definition slice0 :: "'a list \<Rightarrow> int \<Rightarrow> 'a list" where
  "slice0 xs n = (if 0 \<le> n then take (nat n) xs else take (length xs - nat (- n)) xs)"

text \<open>\<^verbatim>\<open>Query.prototype.limit(n)\<close> of the record store: 0 is no limit, a negative \<open>n\<close> counts as \<open>-n\<close>.\<close>

definition mongoLimit :: "int \<Rightarrow> 'a list \<Rightarrow> 'a list" where
  "mongoLimit n xs = (if n = 0 then xs else take (nat \<bar>n\<bar>) xs)"

definition isMongoDBConnected :: "server \<Rightarrow> bool" where
  "isMongoDBConnected s = isMongoConnected s"

section \<open>Upload (controllers/imageController.js)\<close>

record upload_file =
  file_originalname :: js_string

record upload_request =
  up_user :: objectId
  up_files :: "upload_file list"

record single_upload_request =
  one_user :: objectId
  one_file :: "upload_file option"
  one_title :: "js_string option"

text \<open>
  \<^verbatim>\<open>uploadMultipleImages\<close>, lines 54 to 86: the status and the flag the new record
  will carry, after the attempt to embed and store at once.
\<close>

definition embedAtUpload ::
  "world \<Rightarrow> bool \<Rightarrow> objectId \<Rightarrow> js_string \<Rightarrow> js_string \<Rightarrow> js_string \<Rightarrow> server
     \<Rightarrow> (embedding_status \<times> bool) \<times> server" where
  "embedAtUpload w aiModelAvailable usr fullPath qid fname s =
     (if aiModelAvailable \<and> isQdrantConnected s then
        (case checkQdrantHealth w s of
           (healthy, s1) \<Rightarrow>
             (case generateImageEmbedding w fullPath s1 of
                (Inl e, s2) \<Rightarrow> ((Pending, False), s2)
              | (Inr embedding, s2) \<Rightarrow>
                  if qdrantClient s2 then
                    (case qdrant_upsert w qid
                            \<lparr>qvector = embedding, payload_imageId = None,
                             payload_userId = usr, payload_filename = fname\<rparr> s2 of
                       (Inl e, s3) \<Rightarrow> ((Pending, False), s3)
                     | (Inr u, s3) \<Rightarrow> ((Completed, True), s3))
                  else ((Pending, False), s2)))
      else ((Pending, False), s))"

text \<open>Lines 109 to 125: the payload of the stored point learns the id of the record.\<close>

definition linkPayload :: "world \<Rightarrow> bool \<Rightarrow> js_string \<Rightarrow> objectId \<Rightarrow> server \<Rightarrow> server" where
  "linkPayload w embedded qid i s =
     (if embedded \<and> isQdrantConnected s then
        (if qdrantClient s then snd (qdrant_setPayload w qid i s) else s)
      else s)"

text \<open>
  The body of the \<^verbatim>\<open>try\<close> inside the loop over the files, lines 40 to 127. The
  schema trims the title when the document is created (models/Image.js, \<^verbatim>\<open>trim: true\<close>).
\<close>

definition uploadFile :: "world \<Rightarrow> objectId \<Rightarrow> bool \<Rightarrow> upload_file \<Rightarrow> image io" where
  "uploadFile w usr aiModelAvailable file s =
     (case nextUuid w s of
        (u, s0) \<Rightarrow>
          (let fileExt = extname w (file_originalname file);
               fname = u @ fileExt
           in case storage_saveFile w fname s0 of
                (Inl e, s1) \<Rightarrow> (Inl e, s1)
              | (Inr fpath, s1) \<Rightarrow>
                  (case getImageMetadata w fpath s1 of
                     (Inl e, s2) \<Rightarrow> (Inl e, s2)
                   | (Inr m, s2) \<Rightarrow>
                       (case nextUuid w s2 of
                          (qid, s3) \<Rightarrow>
                            (case embedAtUpload w aiModelAvailable usr fpath qid fname s3 of
                               ((st, embedded), s4) \<Rightarrow>
                                 (case Image_create w
                                         (\<lambda>i now.
                                            \<lparr>image_id = i, filename = fname,
                                             originalName = file_originalname file,
                                             filePath = fpath,
                                             title =
                                               trim (basename w (file_originalname file) fileExt),
                                             qdrantId = qid, owner = usr,
                                             isEmbedded = embedded, embeddingStatus = st,
                                             embeddingError = None,
                                             embeddingAttempts = (if embedded then 1 else 0),
                                             lastEmbeddingAttempt = None,
                                             uploadDate = now, createdAt = now\<rparr>) s4 of
                                    (Inl e, s5) \<Rightarrow> (Inl e, s5)
                                  | (Inr doc, s5) \<Rightarrow>
                                      (Inr doc, linkPayload w embedded qid (image_id doc) s5)))))))"

text \<open>The loop over \<^verbatim>\<open>req.files\<close> with its two accumulators.\<close>

fun uploadFiles ::
  "world \<Rightarrow> objectId \<Rightarrow> bool \<Rightarrow> upload_file list \<Rightarrow> image list \<times> (js_string \<times> string) list
     \<Rightarrow> server \<Rightarrow> (image list \<times> (js_string \<times> string) list) \<times> server" where
  "uploadFiles w usr ai [] acc s = (acc, s)"
| "uploadFiles w usr ai (file # rest) acc s =
     (case uploadFile w usr ai file s of
        (Inl e, s1) \<Rightarrow>
          uploadFiles w usr ai rest (fst acc, snd acc @ [(file_originalname file, message e)]) s1
      | (Inr doc, s1) \<Rightarrow> uploadFiles w usr ai rest (fst acc @ [doc], snd acc) s1)"

text \<open>
  \<^verbatim>\<open>uploadMultipleImages\<close>. The pipeline pass it schedules with \<^verbatim>\<open>setImmediate\<close> runs
  after the response, as one of the other tasks of the event loop.
\<close>

definition uploadMultipleImages :: "world \<Rightarrow> upload_request \<Rightarrow> server \<Rightarrow> response \<times> server" where
  "uploadMultipleImages w req s =
     (if \<not> isMongoDBConnected s then
        (reply 503 False (Some ''Database is currently unavailable. Please try again later.''), s)
      else if up_files req = [] then
        (reply 400 False (Some ''Please upload at least one image''), s)
      else
        (case uploadFiles w (up_user req) (isAIModelReady s) (up_files req) ([], []) s of
           ((uploadedImages, errors), s1) \<Rightarrow>
             ((reply 201 True None)
                \<lparr>res_images := Some uploadedImages, res_uploadErrors := errors\<rparr>,
              await w s1)))"

text \<open>\<^verbatim>\<open>uploadImage\<close>, lines 215 to 242: errors are logged and dropped.\<close>

definition storeAtUpload ::
  "world \<Rightarrow> objectId \<Rightarrow> js_string \<Rightarrow> js_string \<Rightarrow> js_string \<Rightarrow> server \<Rightarrow> server" where
  "storeAtUpload w usr fullPath qid fname s =
     (if isQdrantConnected s then
        (case checkQdrantHealth w s of
           (healthy, s1) \<Rightarrow>
             (case generateImageEmbedding w fullPath s1 of
                (Inl e, s2) \<Rightarrow> s2
              | (Inr embedding, s2) \<Rightarrow>
                  if qdrantClient s2 then
                    snd (qdrant_upsert w qid
                           \<lparr>qvector = embedding, payload_imageId = None,
                            payload_userId = usr, payload_filename = fname\<rparr> s2)
                  else s2))
      else s)"

text \<open>The body of the \<^verbatim>\<open>try\<close> of \<^verbatim>\<open>uploadImage\<close> after the three gates.\<close>

definition uploadOne :: "world \<Rightarrow> single_upload_request \<Rightarrow> upload_file \<Rightarrow> image io" where
  "uploadOne w req file s =
     (case nextUuid w s of
        (u, s0) \<Rightarrow>
          (let fileExt = extname w (file_originalname file);
               fname = u @ fileExt
           in case storage_saveFile w fname s0 of
                (Inl e, s1) \<Rightarrow> (Inl e, s1)
              | (Inr fpath, s1) \<Rightarrow>
                  (case getImageMetadata w fpath s1 of
                     (Inl e, s2) \<Rightarrow> (Inl e, s2)
                   | (Inr m, s2) \<Rightarrow>
                       (case nextUuid w s2 of
                          (qid, s3) \<Rightarrow>
                            (let s4 = storeAtUpload w (one_user req) fpath qid fname s3
                             in case Image_create w
                                       (\<lambda>i now.
                                          \<lparr>image_id = i, filename = fname,
                                           originalName = file_originalname file,
                                           filePath = fpath,
                                           title =
                                             trim
                                               (case one_title req of
                                                  None \<Rightarrow> file_originalname file
                                                | Some t \<Rightarrow>
                                                    if t = [] then file_originalname file
                                                    else t),
                                           qdrantId = qid, owner = one_user req,
                                           isEmbedded = False, embeddingStatus = Pending,
                                           embeddingError = None, embeddingAttempts = 0,
                                           lastEmbeddingAttempt = None,
                                           uploadDate = now, createdAt = now\<rparr>) s4 of
                                  (Inl e, s5) \<Rightarrow> (Inl e, s5)
                                | (Inr doc, s5) \<Rightarrow>
                                    (Inr doc, linkPayload w True qid (image_id doc) s5))))))"

definition uploadImage :: "world \<Rightarrow> single_upload_request \<Rightarrow> server \<Rightarrow> response \<times> server" where
  "uploadImage w req s =
     (if \<not> isMongoDBConnected s then
        (reply 503 False (Some ''Database is currently unavailable. Please try again later.''), s)
      else if \<not> isAIModelReady s then
        (reply 503 False
           (Some ''AI model is currently unavailable. Image uploads are temporarily disabled.''), s)
      else
        (case one_file req of
           None \<Rightarrow> (reply 400 False (Some ''Please upload an image''), s)
         | Some file \<Rightarrow>
             (case uploadOne w req file s of
                (Inr doc, s1) \<Rightarrow> ((reply 201 True None)\<lparr>res_images := Some [doc]\<rparr>, s1)
              | (Inl error, s1) \<Rightarrow>
                  if js_includes (message error) ''BLOB_READ_WRITE_TOKEN'' then
                    ((reply 503 False (Some ''Storage service unavailable''))
                       \<lparr>res_error := Some ''Vercel Blob Storage is not configured. Image uploads require cloud storage in production.''\<rparr>,
                     s1)
                  else
                    ((reply 500 False (Some ''Error uploading image''))
                       \<lparr>res_error := Some (message error)\<rparr>, s1))))"

section \<open>Delete (controllers/imageController.js)\<close>

record delete_request =
  del_user :: objectId
  del_id :: objectId

text \<open>Lines 498 to 512: the vector is removed when the index is reachable; errors are logged.\<close>

definition removeVector :: "world \<Rightarrow> image \<Rightarrow> server \<Rightarrow> server" where
  "removeVector w img s =
     (if isQdrantConnected s \<and> qdrantId img \<noteq> [] then
        (if qdrantClient s then snd (qdrant_delete w (qdrantId img) s) else s)
      else s)"

definition deleteImage :: "world \<Rightarrow> delete_request \<Rightarrow> server \<Rightarrow> response \<times> server" where
  "deleteImage w req s =
     (case Image_findById w (del_id req) s of
        (Inl e, s1) \<Rightarrow>
          ((reply 500 False (Some ''Error deleting image''))\<lparr>res_error := Some (message e)\<rparr>, s1)
      | (Inr None, s1) \<Rightarrow> (reply 404 False (Some ''Image not found''), s1)
      | (Inr (Some img), s1) \<Rightarrow>
          if owner img \<noteq> del_user req then
            (reply 403 False (Some ''Not authorized to delete this image''), s1)
          else
            (let s2 = snd (storage_deleteFile w (filePath img) s1);
                 s3 = removeVector w img s2
             in case Collection_pull w (image_id img) s3 of
                  (Inl e, s4) \<Rightarrow>
                    ((reply 500 False (Some ''Error deleting image''))
                       \<lparr>res_error := Some (message e)\<rparr>, s4)
                | (Inr u, s4) \<Rightarrow>
                    (case Image_deleteOne w (image_id img) s4 of
                       (Inl e, s5) \<Rightarrow>
                         ((reply 500 False (Some ''Error deleting image''))
                            \<lparr>res_error := Some (message e)\<rparr>, s5)
                     | (Inr u', s5) \<Rightarrow>
                         (reply 200 True (Some ''Image deleted successfully''), s5))))"

section \<open>Search (controllers/imageController.js)\<close>

text \<open>
  The body of a search request. The two dates are the values \<^verbatim>\<open>new Date(...)\<close> gives;
  \<open>sr_limit\<close> is \<^verbatim>\<open>parseInt(limit)\<close> when the body has a limit.
\<close>

record search_request =
  sr_user :: objectId
  sr_query :: "js_string option"
  sr_limit :: "int option"
  sr_startDate :: "timestamp option"
  sr_endDate :: "timestamp option"
  sr_name :: "js_string option"

definition limitOf :: "search_request \<Rightarrow> int" where
  "limitOf req = (case sr_limit req of None \<Rightarrow> 20 | Some n \<Rightarrow> n)"

text \<open>Lines 546 to 566: the filter on owner, upload date and name.\<close>

definition baseFilter :: "world \<Rightarrow> search_request \<Rightarrow> image \<Rightarrow> bool" where
  "baseFilter w req i \<longleftrightarrow>
     owner i = sr_user req \<and>
     (case sr_startDate req of None \<Rightarrow> True | Some t \<Rightarrow> t \<le> uploadDate i) \<and>
     (case sr_endDate req of None \<Rightarrow> True | Some t \<Rightarrow> uploadDate i \<le> endOfDay w t) \<and>
     (case sr_name req of
        None \<Rightarrow> True
      | Some n \<Rightarrow>
          if n = [] then True
          else regexTest w n (title i) \<or> regexTest w n (originalName i))"

text \<open>
  Line 569, negated: \<^verbatim>\<open>query && query.trim()\<close>. An absent query and the empty
  string are both falsy.
\<close>

definition queryOf :: "search_request \<Rightarrow> js_string" where
  "queryOf req = (case sr_query req of None \<Rightarrow> [] | Some q \<Rightarrow> q)"

definition hasQuery :: "search_request \<Rightarrow> bool" where
  "hasQuery req \<longleftrightarrow> queryOf req \<noteq> [] \<and> trim (queryOf req) \<noteq> []"

text \<open>Line 592.\<close>

definition useAISearch :: "world \<Rightarrow> server \<Rightarrow> bool \<times> server" where
  "useAISearch w s =
     (if isQdrantConnected s then
        (case checkQdrantHealth w s of
           (healthy, s1) \<Rightarrow> (healthy \<and> isAIModelReady s1, s1))
      else (False, s))"

text \<open>
  Lines 649 and 650: the score of the first result that carries the id of the record,
  0 when there is none. For a number \<open>x\<close>, \<^verbatim>\<open>x || 0\<close> is \<open>x\<close>.
\<close>

definition scoreOf :: "hit list \<Rightarrow> image \<Rightarrow> real" where
  "scoreOf searchResults a =
     (case find (\<lambda>r. hit_imageId r = Some (image_id a)) searchResults of
        None \<Rightarrow> 0
      | Some r \<Rightarrow> hit_score r)"

text \<open>\<^verbatim>\<open>searchResults.map(result => result.payload.imageId).filter(id => id)\<close>\<close>

definition imageIdsOf :: "hit list \<Rightarrow> objectId list" where
  "imageIdsOf searchResults = List.map_filter hit_imageId searchResults"

text \<open>
  The \<^verbatim>\<open>try\<close> block of the AI path, lines 597 to 663. The comparator
  \<^verbatim>\<open>scoreB - scoreA\<close> sorts by descending score, and the sort is stable.
\<close>

definition aiSearch :: "world \<Rightarrow> search_request \<Rightarrow> nat \<Rightarrow> response io" where
  "aiSearch w req unembeddedCount s =
     (case generateTextEmbedding w (queryOf req) s of
        (Inl e, s1) \<Rightarrow> (Inl e, s1)
      | (Inr embedding, s1) \<Rightarrow>
          if embedding = [] then (Inl (Error ''Invalid embedding generated'' None), s1)
          else if \<not> qdrantClient s1 then
            (Inl (Error ''Cannot read properties of null'' None), s1)
          else
            (case qdrant_getCollection w s1 of
               (Inl e, s2) \<Rightarrow> (Inl e, s2)
             | (Inr points_count, s2) \<Rightarrow>
                 if points_count = 0 then
                   (Inl (Error ''No embedded images available for AI search'' None), s2)
                 else
                   (case qdrant_search w embedding (limitOf req * 3) s2 of
                      (Inl e, s3) \<Rightarrow> (Inl e, s3)
                    | (Inr searchResults, s3) \<Rightarrow>
                        (let imageIds = imageIdsOf searchResults
                         in if imageIds = [] then
                              (Inl (Error ''No AI search results found'' None), s3)
                            else
                              (case Image_find w
                                      (\<lambda>i. image_id i \<in> set imageIds \<and> baseFilter w req i) s3 of
                                 (Inl e, s4) \<Rightarrow> (Inl e, s4)
                               | (Inr found, s4) \<Rightarrow>
                                   (let sortedImages =
                                          slice0 (sort_key (\<lambda>a. - scoreOf searchResults a) found)
                                            (limitOf req)
                                    in (Inr ((reply 200 True None)
                                              \<lparr>res_images := Some sortedImages,
                                               res_searchType := Some ''ai'',
                                               res_unembeddedCount := Some unembeddedCount,
                                               res_warning :=
                                                 (if unembeddedCount > 0
                                                  then Some unembeddedCount else None)\<rparr>),
                                        s4)))))))"

text \<open>The \<^verbatim>\<open>catch\<close> block of the AI path, lines 664 to 708.\<close>

definition aiSearchError :: "js_error \<Rightarrow> response" where
  "aiSearchError error =
     (if js_includes (message error) ''Bad Request'' \<or> status error = Some 400 then
        (reply 400 False
           (Some ''AI search failed. The search service may be experiencing issues.''))
          \<lparr>res_error := Some ''Please try again later or contact support if the issue persists.'',
           res_searchType := Some ''ai''\<rparr>
      else
        (reply 500 False (Some ''AI search encountered an error. Please try again later.''))
          \<lparr>res_error := Some (message error), res_searchType := Some ''ai''\<rparr>)"

definition searchImages :: "world \<Rightarrow> search_request \<Rightarrow> server \<Rightarrow> response \<times> server" where
  "searchImages w req s =
     (if \<not> hasQuery req then
        (case Image_find w (baseFilter w req) s of
           (Inl e, s1) \<Rightarrow>
             ((reply 500 False (Some ''Error searching images''))
                \<lparr>res_error := Some (message e)\<rparr>, s1)
         | (Inr found, s1) \<Rightarrow>
             ((reply 200 True (Some ''Showing all images''))
                \<lparr>res_images :=
                   Some (mongoLimit (limitOf req) (sort_key (\<lambda>i. - createdAt i) found)),
                 res_searchType := Some ''all''\<rparr>, s1))
      else
        (case countDocuments w (\<lambda>i. owner i = sr_user req \<and> \<not> isEmbedded i) s of
           (Inl e, s1) \<Rightarrow>
             ((reply 500 False (Some ''Error searching images''))
                \<lparr>res_error := Some (message e)\<rparr>, s1)
         | (Inr unembeddedCount, s1) \<Rightarrow>
             (case useAISearch w s1 of
                (use, s2) \<Rightarrow>
                  if use then
                    (case aiSearch w req unembeddedCount s2 of
                       (Inr res, s3) \<Rightarrow> (res, s3)
                     | (Inl error, s3) \<Rightarrow> (aiSearchError error, s3))
                  else
                    ((reply 503 False (Some ''AI search is currently unavailable''))
                       \<lparr>res_error := Some ''AI model or vector database is not ready. Please use filters to browse images.'',
                        res_searchType := Some ''unavailable''\<rparr>, s2))))"

section \<open>Eligibility as the specification words it\<close>

text \<open>
  The eligibility rule in the words of the specification, with the retry delay
  compared by \<open>\<ge>\<close>, and the same rule with the strict comparison.
\<close>

definition eligible_claimed :: "timestamp \<Rightarrow> image \<Rightarrow> bool" where
  "eligible_claimed now i \<longleftrightarrow>
     embeddingStatus i = Pending \<or>
     (embeddingStatus i = Failed \<and> embeddingAttempts i < 5 \<and>
      (case lastEmbeddingAttempt i of None \<Rightarrow> True | Some t \<Rightarrow> now - t \<ge> 60000))"

definition eligible_strict :: "timestamp \<Rightarrow> image \<Rightarrow> bool" where
  "eligible_strict now i \<longleftrightarrow>
     embeddingStatus i = Pending \<or>
     (embeddingStatus i = Failed \<and> embeddingAttempts i < 5 \<and>
      (case lastEmbeddingAttempt i of None \<Rightarrow> True | Some t \<Rightarrow> now - t > 60000))"

text \<open>
  The batch of a pass in the words of the specification: the first 10 eligible records
  in the order of the store. A record was attempted when its counter went up by one,
  its last attempt is set and it ended completed or failed; a pass that attempts the
  records of a list of ids changed those so and left every other record as it was. A
  pass that leaves the store untouched outside a list of ids keeps every id, and
  every record whose id is not in the list.
\<close>

definition firstEligible :: "timestamp \<Rightarrow> image list \<Rightarrow> image list" where
  "firstEligible now db = take 10 (filter (eligible_strict now) db)"

definition attempted :: "image \<Rightarrow> image \<Rightarrow> bool" where
  "attempted old new \<longleftrightarrow>
     image_id new = image_id old \<and>
     embeddingAttempts new = embeddingAttempts old + 1 \<and>
     lastEmbeddingAttempt new \<noteq> None \<and>
     (embeddingStatus new = Completed \<or> embeddingStatus new = Failed)"

definition attemptedIn :: "objectId list \<Rightarrow> image \<Rightarrow> image \<Rightarrow> bool" where
  "attemptedIn ids old new = (if image_id old \<in> set ids then attempted old new else new = old)"

definition untouchedOutside :: "objectId list \<Rightarrow> image \<Rightarrow> image \<Rightarrow> bool" where
  "untouchedOutside ids old new \<longleftrightarrow>
     image_id new = image_id old \<and> (image_id old \<in> set ids \<or> new = old)"

text \<open>The invariant of the data model, and terminal failure, for one record.\<close>

definition embeddedIffCompleted :: "image \<Rightarrow> bool" where
  "embeddedIffCompleted i \<longleftrightarrow> (isEmbedded i \<longleftrightarrow> embeddingStatus i = Completed)"

definition terminallyFailed :: "image \<Rightarrow> bool" where
  "terminallyFailed i \<longleftrightarrow> embeddingStatus i = Failed \<and> embeddingAttempts i \<ge> 5"

text \<open>
  Bookkeeping for one pass: no record with the given id is embedded; every record with
  another id is a record of the earlier store.
\<close>

definition notEmbeddedAt :: "objectId \<Rightarrow> image list \<Rightarrow> bool" where
  "notEmbeddedAt i xs \<longleftrightarrow> (\<forall>r\<in>set xs. image_id r = i \<longrightarrow> \<not> isEmbedded r)"

definition othersKept :: "objectId \<Rightarrow> image list \<Rightarrow> image list \<Rightarrow> bool" where
  "othersKept i xs ys \<longleftrightarrow> (\<forall>r\<in>set ys. image_id r \<noteq> i \<longrightarrow> r \<in> set xs)"

text \<open>
  The two shapes in which an upload creates a record; worlds in which the stores, or the
  model and the index, answer every call; and two states that hold the same records and
  the same connection flags.
\<close>

definition completedForm :: "image \<Rightarrow> bool" where
  "completedForm d \<longleftrightarrow> embeddingStatus d = Completed \<and> isEmbedded d \<and> embeddingAttempts d = 1"

definition pendingForm :: "image \<Rightarrow> bool" where
  "pendingForm d \<longleftrightarrow> embeddingStatus d = Pending \<and> \<not> isEmbedded d \<and> embeddingAttempts d = 0"

definition storesUp :: "world \<Rightarrow> bool" where
  "storesUp w \<longleftrightarrow>
     (\<forall>k. storageFault w k = None) \<and> (\<forall>k. imageMetadataFault w k = None) \<and>
     (\<forall>k. dbFault w k = None)"

definition embeddingUp :: "world \<Rightarrow> bool" where
  "embeddingUp w \<longleftrightarrow> (\<forall>k. qdrantFault w k = None) \<and> (\<forall>k p. \<exists>v. embedImage w k p = Inr v)"

definition steady :: "server \<Rightarrow> server \<Rightarrow> bool" where
  "steady s s' \<longleftrightarrow>
     images s' = images s \<and> isQdrantAvailable s' = isQdrantAvailable s \<and>
     qdrantClient s' = qdrantClient s"

text \<open>
  Other tasks that leave the process alone while the guard of the pipeline is set; the
  same world without other tasks; and the world in which a further call of
  \<^verbatim>\<open>processPendingEmbeddings\<close> is triggered at each of the chosen \<^verbatim>\<open>await\<close>s.
\<close>

definition guardedIdle :: "world \<Rightarrow> bool" where
  "guardedIdle w \<longleftrightarrow> (\<forall>k s. isProcessing s \<longrightarrow> onAwait w k s = s)"

definition calmed :: "world \<Rightarrow> world" where
  "calmed w = w\<lparr>onAwait := (\<lambda>k s. s)\<rparr>"

definition withTriggers :: "(nat \<Rightarrow> bool) \<Rightarrow> world \<Rightarrow> world" where
  "withTriggers K w =
     w\<lparr>onAwait := (\<lambda>k s. if K k then processPendingEmbeddings (calmed w) s else s)\<rparr>"

text \<open>
  The answer of the search handler when the AI path is closed, and the index being
  connected with a client that answers the health check issued at the given state.
\<close>

definition unavailableResponse :: response where
  "unavailableResponse =
     (reply 503 False (Some ''AI search is currently unavailable''))
       \<lparr>res_error := Some ''AI model or vector database is not ready. Please use filters to browse images.'',
        res_searchType := Some ''unavailable''\<rparr>"

definition indexHealthyAt :: "world \<Rightarrow> server \<Rightarrow> bool" where
  "indexHealthyAt w s \<longleftrightarrow>
     isQdrantConnected s \<and> qdrantClient s \<and> qdrantFault w (clock s) = None"

text \<open>
  The 500 answer of the AI path with a given error message, and the records that carry
  the id of a search result and pass the filter of the request.
\<close>

definition aiFailure :: "string \<Rightarrow> response" where
  "aiFailure msg =
     (reply 500 False (Some ''AI search encountered an error. Please try again later.''))
       \<lparr>res_error := Some msg, res_searchType := Some ''ai''\<rparr>"

definition survivors :: "world \<Rightarrow> search_request \<Rightarrow> hit list \<Rightarrow> image list \<Rightarrow> image list" where
  "survivors w req hits db =
     filter (\<lambda>i. image_id i \<in> set (imageIdsOf hits) \<and> baseFilter w req i) db"

text \<open>
  The deletion of the vector of a record will go through: the index is connected with a
  client, the record has a \<open>qdrantId\<close>, and the index accepts the call, the third of
  the handler.
\<close>

definition vectorRemovable :: "world \<Rightarrow> image \<Rightarrow> server \<Rightarrow> bool" where
  "vectorRemovable w img s \<longleftrightarrow>
     isQdrantConnected s \<and> qdrantClient s \<and> qdrantId img \<noteq> [] \<and>
     qdrantFault w (clock s + 2) = None"

section \<open>Sample data\<close>

text \<open>The code units of an ASCII literal.\<close>

definition utf16 :: "string \<Rightarrow> js_string" where
  "utf16 x = map of_char x"

definition sampleImage ::
  "objectId \<Rightarrow> string \<Rightarrow> embedding_status \<Rightarrow> nat \<Rightarrow> timestamp option \<Rightarrow> image" where
  "sampleImage i q st n t =
     \<lparr>image_id = i, filename = utf16 ''f.jpg'', originalName = utf16 ''cat.jpg'',
      filePath = utf16 ''blob/f.jpg'', title = utf16 ''cat'', qdrantId = utf16 q, owner = 7,
      isEmbedded = (st = Completed), embeddingStatus = st, embeddingError = None,
      embeddingAttempts = n, lastEmbeddingAttempt = t, uploadDate = 0, createdAt = 0\<rparr>"

text \<open>
  A world in which every external call succeeds and no other task interferes. Its
  percentages are those of exact arithmetic, rounded half up.
\<close>

definition calmWorld :: world where
  "calmWorld =
     \<lparr>wallClock = (\<lambda>k. 160000), dbFault = (\<lambda>k. None), newObjectId = (\<lambda>k. 100 + k),
      qdrantFault = (\<lambda>k. None), qdrantSearch = (\<lambda>k pts v n. []),
      storageFault = (\<lambda>k. None), blobUrl = (\<lambda>f. utf16 ''blob/'' @ f),
      imageMetadataFault = (\<lambda>k. None), embedImage = (\<lambda>k p. Inr [1, 0]),
      embedText = (\<lambda>k q. Inr [1, 0]), uuidv4 = (\<lambda>n. replicate (Suc n) 0x75),
      extname = (\<lambda>f. utf16 ''.jpg''), basename = (\<lambda>f e. utf16 ''cat''),
      regexTest = (\<lambda>p x. True), endOfDay = (\<lambda>t. t + 86399999),
      roundedPercentage = (\<lambda>e t. (200 * e + t) div (2 * t)),
      onAwait = (\<lambda>k s. s)\<rparr>"

definition serverWith :: "image list \<Rightarrow> server" where
  "serverWith db =
     \<lparr>clock = 0, images = db, collections = [], qpoints = [], qdrantClient = True,
      isQdrantAvailable = True, reconnectScheduled = False, isAIModelAvailable = True,
      isMongoConnected = True, isProcessing = False, uuidCount = 0\<rparr>"

text \<open>
  A store with a pending record, a failed record last attempted exactly \<open>RETRY_DELAY\<close>
  before the instant 160000, one attempted a millisecond earlier, and one out of attempts.
\<close>

definition backoffStore :: "image list" where
  "backoffStore =
     [sampleImage 1 ''q1'' Pending 0 None,
      sampleImage 2 ''q2'' Failed 1 (Some 100000),
      sampleImage 3 ''q3'' Failed 1 (Some 99999),
      sampleImage 4 ''q4'' Failed 5 None]"

text \<open>A search for one image, an index that ranks record 2 above record 1, and a store with both.\<close>

definition sunsetRequest :: search_request where
  "sunsetRequest =
     \<lparr>sr_user = 7, sr_query = Some (utf16 ''sunset''), sr_limit = Some 1, sr_startDate = None,
      sr_endDate = None, sr_name = None\<rparr>"

definition rankingWorld :: world where
  "rankingWorld =
     calmWorld\<lparr>qdrantSearch :=
       (\<lambda>k pts v n. [\<lparr>hit_imageId = Some 2, hit_score = 9 / 10\<rparr>,
                      \<lparr>hit_imageId = None, hit_score = 8 / 10\<rparr>,
                      \<lparr>hit_imageId = Some 1, hit_score = 5 / 10\<rparr>])\<rparr>"

definition indexedServer :: server where
  "indexedServer =
     (serverWith [sampleImage 1 ''q1'' Completed 1 (Some 5),
                  sampleImage 2 ''q2'' Completed 1 (Some 6)])
       \<lparr>qpoints :=
          [(utf16 ''q1'', \<lparr>qvector = [1, 0], payload_imageId = Some 1, payload_userId = 7,
                    payload_filename = utf16 ''f.jpg''\<rparr>),
           (utf16 ''q2'', \<lparr>qvector = [0, 1], payload_imageId = Some 2, payload_userId = 7,
                    payload_filename = utf16 ''f.jpg''\<rparr>)],
        collections := [\<lparr>collection_id = 50, collection_images = [2, 1]\<rparr>]\<rparr>"

section \<open>Effect of the pipeline on the records\<close>

text \<open>
  In a quiet world each call of the pipeline changes the records only through the three
  partial updates, applied to the first record with the id of the image at hand. The
  lemmas below list the stores \<^verbatim>\<open>processImageEmbedding\<close> can leave behind and show
  that each of them keeps the invariant, given that no record with that id was embedded.
\<close>

lemma await_quiet: "quiet w \<Longrightarrow> await w s = s\<lparr>clock := Suc (clock s)\<rparr>"
  by (simp add: await_def quiet_def)

lemma updateFirst_set:
  "r \<in> set (updateFirst i f xs) \<Longrightarrow> r \<in> set xs \<or> (\<exists>x\<in>set xs. image_id x = i \<and> r = f x)"
  by (induction xs) (auto split: if_splits)

lemma fbu_images:
  "findByIdAndUpdate w i f s = (r, s') \<Longrightarrow> quiet w \<Longrightarrow>
     (r = Inr () \<and> images s' = updateFirst i f (images s)) \<or>
     ((\<exists>e. r = Inl e) \<and> images s' = images s)"
  by (auto simp: findByIdAndUpdate_def await_quiet split: option.splits)

lemma gen_images:
  "generateImageEmbedding w p s = (r, s') \<Longrightarrow> quiet w \<Longrightarrow> images s' = images s"
  by (auto simp: generateImageEmbedding_def await_quiet)

lemma health_images:
  "checkQdrantHealth w s = (r, s') \<Longrightarrow> quiet w \<Longrightarrow> images s' = images s"
  by (auto simp: checkQdrantHealth_def await_quiet Let_def split: option.splits if_splits)

lemma upsert_images:
  "qdrant_upsert w k p s = (r, s') \<Longrightarrow> quiet w \<Longrightarrow> images s' = images s"
  by (auto simp: qdrant_upsert_def await_quiet split: option.splits)

lemma store_images:
  "storeInQdrant w img e s = (r, s') \<Longrightarrow> quiet w \<Longrightarrow> images s' = images s"
  by (auto simp: storeInQdrant_def split: if_splits prod.splits
      dest!: health_images upsert_images)

lemma embedAndStore_images:
  assumes r: "embedAndStore w img s = (r, s')" and q: "quiet w"
  shows "(r = Inr () \<and> images s' = updateFirst (image_id img) markCompleted
                     (updateFirst (image_id img) (markProcessing (wallClock w (clock s))) (images s))) \<or>
              ((\<exists>e. r = Inl e) \<and> (images s' = images s \<or>
                 images s' = updateFirst (image_id img) (markProcessing (wallClock w (clock s))) (images s)))"
proof -
  let ?i = "image_id img"
  obtain r1 s1 where a: "findByIdAndUpdate w ?i (markProcessing (wallClock w (clock s))) s = (r1, s1)"
    by (cases "findByIdAndUpdate w ?i (markProcessing (wallClock w (clock s))) s") auto
  note a' = fbu_images [OF a q]
  show ?thesis
  proof (cases r1)
    case (Inl e)
    with r a a' show ?thesis by (auto simp: embedAndStore_def)
  next
    case (Inr u)
    with a' have i1: "images s1 = updateFirst ?i (markProcessing (wallClock w (clock s))) (images s)"
      by auto
    obtain r2 s2 where b: "generateImageEmbedding w (filePath img) s1 = (r2, s2)"
      by (cases "generateImageEmbedding w (filePath img) s1") auto
    have i2: "images s2 = images s1" by (rule gen_images [OF b q])
    show ?thesis
    proof (cases r2)
      case (Inl e)
      with r a b Inr i1 i2 show ?thesis by (auto simp: embedAndStore_def)
    next
      case emb: (Inr embedding)
      obtain r3 s3 where c: "storeInQdrant w img embedding s2 = (r3, s3)"
        by (cases "storeInQdrant w img embedding s2") auto
      have i3: "images s3 = images s2" by (rule store_images [OF c q])
      show ?thesis
      proof (cases r3)
        case (Inl e)
        with r a b c Inr emb i1 i2 i3 show ?thesis by (auto simp: embedAndStore_def)
      next
        case u3: (Inr u')
        with r a b c Inr emb
        have d: "findByIdAndUpdate w ?i markCompleted s3 = (r, s')"
          by (simp add: embedAndStore_def)
        from fbu_images [OF d q] i1 i2 i3 show ?thesis by auto
      qed
    qed
  qed
qed

lemma processImageEmbedding_images:
  assumes r: "processImageEmbedding w img s = (r, s')" and q: "quiet w"
  shows "images s' = images s \<or>
     images s' = updateFirst (image_id img) (markProcessing (wallClock w (clock s))) (images s) \<or>
     images s' = updateFirst (image_id img) markCompleted
                     (updateFirst (image_id img) (markProcessing (wallClock w (clock s))) (images s)) \<or>
     (\<exists>m. images s' = updateFirst (image_id img) (markFailed m) (images s)) \<or>
     (\<exists>m. images s' = updateFirst (image_id img) (markFailed m)
                     (updateFirst (image_id img) (markProcessing (wallClock w (clock s))) (images s)))"
proof -
  obtain r1 s1 where e: "embedAndStore w img s = (r1, s1)"
    by (cases "embedAndStore w img s") auto
  show ?thesis
  proof (cases r1)
    case (Inr u)
    with r e have "s' = s1" by (simp add: processImageEmbedding_def)
    with embedAndStore_images [OF e q] Inr show ?thesis by auto
  next
    case (Inl err)
    obtain r2 s2 where f: "findByIdAndUpdate w (image_id img) (markFailed (message err)) s1 = (r2, s2)"
      by (cases "findByIdAndUpdate w (image_id img) (markFailed (message err)) s1") auto
    with r e Inl have s': "s' = s2" by (auto simp: processImageEmbedding_def split: sum.splits)
    from fbu_images [OF f q] embedAndStore_images [OF e q] Inl s'
    show ?thesis by auto
  qed
qed

lemma updateFirst_all:
  "\<forall>x\<in>set xs. P x \<Longrightarrow> (\<And>x. x \<in> set xs \<Longrightarrow> image_id x = i \<Longrightarrow> P (f x)) \<Longrightarrow>
   \<forall>x\<in>set (updateFirst i f xs). P x"
  by (induction xs) auto

lemma markProcessing_fields:
  "isEmbedded (markProcessing t x) = isEmbedded x"
  "embeddingStatus (markProcessing t x) = Processing"
  "image_id (markProcessing t x) = image_id x"
  by (simp_all add: markProcessing_def)

lemma markFailed_fields:
  "isEmbedded (markFailed m x) = isEmbedded x"
  "embeddingStatus (markFailed m x) = Failed"
  "embeddingError (markFailed m x) = Some m"
  "image_id (markFailed m x) = image_id x"
  by (simp_all add: markFailed_def)

lemma markCompleted_fields:
  "isEmbedded (markCompleted x) = True"
  "embeddingStatus (markCompleted x) = Completed"
  "image_id (markCompleted x) = image_id x"
  by (simp_all add: markCompleted_def)

lemma inv_markProcessing:
  assumes "\<forall>x\<in>set xs. embeddedIffCompleted x" and "notEmbeddedAt i xs"
  shows "(\<forall>x\<in>set (updateFirst i (markProcessing t) xs). embeddedIffCompleted x) \<and>
   notEmbeddedAt i (updateFirst i (markProcessing t) xs)"
proof -
  let ?P = "\<lambda>x. embeddedIffCompleted x \<and> (image_id x = i \<longrightarrow> \<not> isEmbedded x)"
  have base: "\<forall>x\<in>set xs. ?P x" using assms by (simp add: notEmbeddedAt_def)
  have "\<forall>x\<in>set (updateFirst i (markProcessing t) xs). ?P x"
  proof (rule updateFirst_all [OF base])
    fix x assume x: "x \<in> set xs" and xi: "image_id x = i"
    from base x have "?P x" by blast
    with xi show "?P (markProcessing t x)" by (auto simp: markProcessing_fields embeddedIffCompleted_def)
  qed
  then show ?thesis by (simp add: notEmbeddedAt_def)
qed

lemma inv_markFailed:
  assumes "\<forall>x\<in>set xs. embeddedIffCompleted x" and "notEmbeddedAt i xs"
  shows "\<forall>x\<in>set (updateFirst i (markFailed m) xs). embeddedIffCompleted x"
proof -
  let ?P = "\<lambda>x. embeddedIffCompleted x \<and> (image_id x = i \<longrightarrow> \<not> isEmbedded x)"
  have base: "\<forall>x\<in>set xs. ?P x" using assms by (simp add: notEmbeddedAt_def)
  have "\<forall>x\<in>set (updateFirst i (markFailed m) xs). ?P x"
  proof (rule updateFirst_all [OF base])
    fix x assume x: "x \<in> set xs" and xi: "image_id x = i"
    from base x have "?P x" by blast
    with xi show "?P (markFailed m x)" by (auto simp: markFailed_fields embeddedIffCompleted_def)
  qed
  then show ?thesis by simp
qed

lemma inv_markCompleted:
  assumes "\<forall>x\<in>set xs. embeddedIffCompleted x"
  shows "\<forall>x\<in>set (updateFirst i markCompleted xs). embeddedIffCompleted x"
  using assms by (rule updateFirst_all) (simp add: markCompleted_fields embeddedIffCompleted_def)

lemma othersKept_refl: "othersKept i xs xs"
  by (simp add: othersKept_def)

lemma updateFirst_others:
  "(\<And>x. image_id (f x) = image_id x) \<Longrightarrow> r \<in> set (updateFirst i f ys) \<Longrightarrow>
   image_id r \<noteq> i \<Longrightarrow> r \<in> set ys"
  by (induction ys) (auto split: if_splits)

lemma othersKept_update:
  "(\<And>x. image_id (f x) = image_id x) \<Longrightarrow> othersKept i xs ys \<Longrightarrow> othersKept i xs (updateFirst i f ys)"
  unfolding othersKept_def using updateFirst_others [of f _ i ys] by blast

lemmas id_markProcessing = markProcessing_fields(3)
lemmas id_markCompleted = markCompleted_fields(3)
lemmas id_markFailed = markFailed_fields(4)

lemma step_preserves:
  assumes r: "processImageEmbedding w img s = (r, s')" and q: "quiet w"
    and inv: "\<forall>x\<in>set (images s). embeddedIffCompleted x"
    and ne: "notEmbeddedAt (image_id img) (images s)"
  shows "(\<forall>x\<in>set (images s'). embeddedIffCompleted x) \<and>
         othersKept (image_id img) (images s) (images s')"
proof -
  let ?i = "image_id img"
  let ?p = "updateFirst ?i (markProcessing (wallClock w (clock s))) (images s)"
  have p: "(\<forall>x\<in>set ?p. embeddedIffCompleted x) \<and> notEmbeddedAt ?i ?p"
    by (rule inv_markProcessing [OF inv ne])
  have kp: "othersKept ?i (images s) ?p"
    by (rule othersKept_update [OF id_markProcessing othersKept_refl])
  from processImageEmbedding_images [OF r q]
  consider "images s' = images s" | "images s' = ?p"
    | "images s' = updateFirst ?i markCompleted ?p"
    | m where "images s' = updateFirst ?i (markFailed m) (images s)"
    | m where "images s' = updateFirst ?i (markFailed m) ?p"
    by blast
  then show ?thesis
  proof cases
    case 1 with inv show ?thesis by (simp add: othersKept_refl)
  next
    case 2 with p kp show ?thesis by simp
  next
    case 3
    with p kp inv_markCompleted [of ?p ?i] othersKept_update [OF id_markCompleted kp]
    show ?thesis by simp
  next
    case 4
    with inv_markFailed [OF inv ne, of m]
      othersKept_update [of "markFailed m" ?i "images s" "images s", OF id_markFailed othersKept_refl]
    show ?thesis by simp
  next
    case 5
    with p inv_markFailed [of ?p ?i m]
      othersKept_update [of "markFailed m" ?i "images s" ?p, OF id_markFailed kp]
    show ?thesis by simp
  qed
qed

lemma find_limit_result:
  "Image_find_limit w q n s = (Inr batch, s') \<Longrightarrow> batch = take n (filter q (images s))"
  by (auto simp: Image_find_limit_def split: option.splits)

section \<open>The invariant across one pass\<close>

text \<open>
  The loop over the batch keeps the invariant because the ids of the batch are distinct:
  processing one image leaves the records of the others as the query found them.
\<close>

lemma updateFirst_ids:
  "(\<And>x. image_id (f x) = image_id x) \<Longrightarrow> map image_id (updateFirst i f xs) = map image_id xs"
  by (induction xs) auto

lemma step_ids:
  assumes r: "processImageEmbedding w img s = (r, s')" and q: "quiet w"
  shows "map image_id (images s') = map image_id (images s)"
  using processImageEmbedding_images [OF r q]
  by (auto simp: updateFirst_ids markProcessing_fields markCompleted_fields markFailed_fields)

lemma batch_preserves:
  assumes q: "quiet w"
  shows "processBatch w batch counts s = (r, s') \<Longrightarrow>
     \<forall>x\<in>set (images s). embeddedIffCompleted x \<Longrightarrow>
     distinct (map image_id batch) \<Longrightarrow>
     \<forall>b\<in>set batch. notEmbeddedAt (image_id b) (images s) \<Longrightarrow>
     (\<forall>x\<in>set (images s'). embeddedIffCompleted x) \<and>
     map image_id (images s') = map image_id (images s)"
proof (induction batch arbitrary: counts s)
  case Nil
  then show ?case by simp
next
  case (Cons b rest)
  obtain r1 s1 where st: "processImageEmbedding w b s = (r1, s1)"
    by (cases "processImageEmbedding w b s") auto
  from Cons.prems have ne: "notEmbeddedAt (image_id b) (images s)" by simp
  from step_preserves [OF st q Cons.prems(2) ne]
  have inv1: "\<forall>x\<in>set (images s1). embeddedIffCompleted x"
    and kept: "othersKept (image_id b) (images s) (images s1)" by auto
  have ids1: "map image_id (images s1) = map image_id (images s)"
    by (rule step_ids [OF st q])
  show ?case
  proof (cases r1)
    case (Inl e)
    with Cons.prems(1) st have "s' = s1" by simp
    with inv1 ids1 show ?thesis by simp
  next
    case (Inr ok)
    let ?c = "if ok then (fst counts + 1, snd counts) else (fst counts, snd counts + 1)"
    from Cons.prems(1) st Inr have rec: "processBatch w rest ?c s1 = (r, s')" by simp
    have d: "distinct (map image_id rest)" using Cons.prems(3) by simp
    have ne': "\<forall>c\<in>set rest. notEmbeddedAt (image_id c) (images s1)"
    proof
      fix c assume c: "c \<in> set rest"
      from Cons.prems(3) have nb: "image_id b \<notin> set (map image_id rest)" by simp
      from c have "image_id c \<in> set (map image_id rest)" by simp
      with nb have neq: "image_id c \<noteq> image_id b" by metis
      from c Cons.prems(4) have old: "notEmbeddedAt (image_id c) (images s)" by simp
      show "notEmbeddedAt (image_id c) (images s1)"
        unfolding notEmbeddedAt_def
      proof (intro ballI impI)
        fix x assume x: "x \<in> set (images s1)" and xi: "image_id x = image_id c"
        with neq kept have "x \<in> set (images s)" by (simp add: othersKept_def)
        with old xi show "\<not> isEmbedded x" by (simp add: notEmbeddedAt_def)
      qed
    qed
    from Cons.IH [OF rec inv1 d ne'] ids1 show ?thesis by simp
  qed
qed

lemma needsEmbedding_not_completed: "needsEmbedding now i \<Longrightarrow> embeddingStatus i \<noteq> Completed"
  by (auto simp: needsEmbedding_def)

lemma selected_notEmbedded:
  assumes inv: "\<forall>x\<in>set db. embeddedIffCompleted x" and d: "distinct (map image_id db)"
    and b: "b \<in> set (take n (filter (needsEmbedding now) db))"
  shows "notEmbeddedAt (image_id b) db"
  unfolding notEmbeddedAt_def
proof (intro ballI impI)
  fix x assume x: "x \<in> set db" and xi: "image_id x = image_id b"
  from b have bdb: "b \<in> set db" and nb: "needsEmbedding now b"
    by (auto dest: in_set_takeD)
  from d have "inj_on image_id (set db)" by (simp add: distinct_map)
  with x bdb xi have "x = b" by (auto dest: inj_onD)
  with nb inv x show "\<not> isEmbedded x"
    using needsEmbedding_not_completed [of now b] by (auto simp: embeddedIffCompleted_def)
qed

lemma find_limit_images:
  "Image_find_limit w q n s = (r, s') \<Longrightarrow> quiet w \<Longrightarrow> images s' = images s"
  by (auto simp: Image_find_limit_def await_quiet split: option.splits)

lemma count_images:
  "countDocuments w q s = (r, s') \<Longrightarrow> quiet w \<Longrightarrow> images s' = images s"
  by (auto simp: countDocuments_def await_quiet split: option.splits)

lemma drain_preserves:
  assumes r: "drainBatch w s = (r, s')" and q: "quiet w"
    and inv: "\<forall>x\<in>set (images s). embeddedIffCompleted x"
    and d: "distinct (map image_id (images s))"
  shows "(\<forall>x\<in>set (images s'). embeddedIffCompleted x) \<and>
         map image_id (images s') = map image_id (images s)"
proof -
  let ?now = "wallClock w (clock s)"
  obtain r1 s1 where f: "Image_find_limit w (needsEmbedding ?now) 10 s = (r1, s1)"
    by (cases "Image_find_limit w (needsEmbedding ?now) 10 s") auto
  have i1: "images s1 = images s" by (rule find_limit_images [OF f q])
  show ?thesis
  proof (cases r1)
    case (Inl e)
    with r f have "s' = s1" by (simp add: drainBatch_def)
    with i1 inv show ?thesis by simp
  next
    case (Inr batch)
    with f have b: "batch = take 10 (filter (needsEmbedding ?now) (images s))"
      by (simp add: find_limit_result)
    show ?thesis
    proof (cases "length batch = 0")
      case True
      with r f Inr have "s' = s1\<lparr>isProcessing := False\<rparr>" by (simp add: drainBatch_def)
      with i1 inv show ?thesis by simp
    next
      case False
      obtain r2 s2 where p: "processBatch w batch (0, 0) s1 = (r2, s2)"
        by (cases "processBatch w batch (0, 0) s1") auto
      have "distinct (take 10 (map image_id (filter (needsEmbedding ?now) (images s))))"
        by (rule distinct_take) (rule distinct_map_filter [OF d])
      then have db: "distinct (map image_id batch)"
        unfolding b by (simp add: take_map)
      have ne: "\<forall>c\<in>set batch. notEmbeddedAt (image_id c) (images s1)"
        unfolding b i1 using selected_notEmbedded [OF inv d] by blast
      from inv i1 have inv1: "\<forall>x\<in>set (images s1). embeddedIffCompleted x" by simp
      from batch_preserves [OF q p inv1 db ne] i1
      have post: "(\<forall>x\<in>set (images s2). embeddedIffCompleted x) \<and>
                  map image_id (images s2) = map image_id (images s)" by simp
      show ?thesis
      proof (cases r2)
        case (Inl e)
        with r f Inr False p have "s' = s2" by (simp add: drainBatch_def)
        with post show ?thesis by simp
      next
        case cnt: (Inr counts)
        obtain r3 s3 where c: "countDocuments w stillNeedsEmbedding s2 = (r3, s3)"
          by (cases "countDocuments w stillNeedsEmbedding s2") auto
        with r f Inr False p cnt have "s' = s3"
          by (auto simp: drainBatch_def split: sum.splits)
        with post count_images [OF c q] show ?thesis by simp
      qed
    qed
  qed
qed

lemma pass_preserves:
  assumes q: "quiet w"
    and inv: "\<forall>x\<in>set (images s). embeddedIffCompleted x"
    and d: "distinct (map image_id (images s))"
  shows "(\<forall>x\<in>set (images (processPendingEmbeddings w s)). embeddedIffCompleted x) \<and>
         distinct (map image_id (images (processPendingEmbeddings w s)))"
proof (cases "isProcessing s \<or> \<not> isAIModelReady s")
  case True
  with inv d show ?thesis by (auto simp: processPendingEmbeddings_def)
next
  case False
  obtain r1 s1 where dr: "drainBatch w (s\<lparr>isProcessing := True\<rparr>) = (r1, s1)"
    by (cases "drainBatch w (s\<lparr>isProcessing := True\<rparr>)") auto
  from False dr have res: "processPendingEmbeddings w s = s1\<lparr>isProcessing := False\<rparr>"
    by (simp add: processPendingEmbeddings_def)
  from drain_preserves [OF dr q] inv d
  have "(\<forall>x\<in>set (images s1). embeddedIffCompleted x) \<and>
         map image_id (images s1) = map image_id (images s)" by simp
  with d res show ?thesis by simp
qed

section \<open>Effect of an upload on the records\<close>

text \<open>
  An upload only appends records. Each step of \<^verbatim>\<open>uploadFile\<close> is followed through the
  records and the two connection flags, so that the loop over the files can carry what
  it knows about the index from one file to the next.
\<close>

lemma steady_refl: "steady s s"
  by (simp add: steady_def)

lemma steady_trans: "steady a b \<Longrightarrow> steady b c \<Longrightarrow> steady a c"
  by (simp add: steady_def)

lemma nextUuid_steady: "nextUuid w s = (u, s') \<Longrightarrow> steady s s'"
  by (auto simp: nextUuid_def steady_def)

lemma saveFile_steady:
  "storage_saveFile w f s = (r, s') \<Longrightarrow> quiet w \<Longrightarrow>
     steady s s' \<and> (storageFault w (clock s) = None \<longrightarrow> (\<exists>p. r = Inr p))"
  by (auto simp: storage_saveFile_def await_quiet steady_def split: option.splits)

lemma metadata_steady:
  "getImageMetadata w p s = (r, s') \<Longrightarrow> quiet w \<Longrightarrow>
     steady s s' \<and> (imageMetadataFault w (clock s) = None \<longrightarrow> (\<exists>m. r = Inr m))"
  by (auto simp: getImageMetadata_def await_quiet steady_def split: option.splits)

lemma create_effect:
  "Image_create w mk s = (r, s') \<Longrightarrow> quiet w \<Longrightarrow>
     isQdrantAvailable s' = isQdrantAvailable s \<and> qdrantClient s' = qdrantClient s \<and>
     (case r of
        Inl e \<Rightarrow> images s' = images s \<and> dbFault w (clock s) \<noteq> None
      | Inr doc \<Rightarrow> images s' = images s @ [doc] \<and>
                   doc = mk (newObjectId w (clock s)) (wallClock w (clock s)))"
  by (auto simp: Image_create_def await_quiet Let_def split: option.splits)

lemma linkPayload_steady: "quiet w \<Longrightarrow> steady s (linkPayload w e qid i s)"
  by (simp add: linkPayload_def qdrant_setPayload_def await_quiet steady_def split: option.splits)

lemma embedAtUpload_effect:
  "embedAtUpload w ai usr path qid fname s = (r, s') \<Longrightarrow> quiet w \<Longrightarrow>
     images s' = images s \<and> qdrantClient s' = qdrantClient s \<and>
     (r = (Completed, True) \<or> r = (Pending, False)) \<and>
     (\<not> (ai \<and> isQdrantConnected s) \<longrightarrow>
        r = (Pending, False) \<and> isQdrantAvailable s' = isQdrantAvailable s)"
  by (auto simp: embedAtUpload_def checkQdrantHealth_def generateImageEmbedding_def
      qdrant_upsert_def await_quiet Let_def isQdrantConnected_def
      split: if_splits option.splits sum.splits)

lemma embedAtUpload_up:
  assumes r: "embedAtUpload w ai usr path qid fname s = (r, s')" and q: "quiet w"
    and up: "ai" "isQdrantConnected s" "qdrantClient s" "embeddingUp w"
  shows "r = (Completed, True) \<and> isQdrantAvailable s'"
proof -
  from up(4) obtain v where v: "embedImage w (Suc (clock s)) path = Inr v"
    unfolding embeddingUp_def by blast
  from up(4) have f: "\<And>k. qdrantFault w k = None" by (simp add: embeddingUp_def)
  from r up(1-3) v show ?thesis
    by (auto simp: embedAtUpload_def checkQdrantHealth_def generateImageEmbedding_def
      qdrant_upsert_def await_quiet [OF q] Let_def isQdrantConnected_def f)
qed

lemma uploadFile_effect:
  assumes r: "uploadFile w usr ai file s = (r, s')" and q: "quiet w"
  shows "qdrantClient s' = qdrantClient s \<and>
         (\<not> (ai \<and> isQdrantConnected s) \<longrightarrow> isQdrantAvailable s' = isQdrantAvailable s) \<and>
         (case r of
            Inl e \<Rightarrow> images s' = images s \<and> \<not> storesUp w
          | Inr doc \<Rightarrow>
              images s' = images s @ [doc] \<and> (completedForm doc \<or> pendingForm doc) \<and>
              (\<not> (ai \<and> isQdrantConnected s) \<longrightarrow> pendingForm doc) \<and>
              (ai \<and> isQdrantConnected s \<and> qdrantClient s \<and> embeddingUp w \<longrightarrow>
                 completedForm doc \<and> isQdrantAvailable s'))"
proof -
  obtain u s0 where n0: "nextUuid w s = (u, s0)" by (cases "nextUuid w s") auto
  note i0 = nextUuid_steady [OF n0]
  let ?fname = "u @ extname w (file_originalname file)"
  obtain r1 s1 where sv: "storage_saveFile w ?fname s0 = (r1, s1)"
    by (cases "storage_saveFile w ?fname s0") auto
  from saveFile_steady [OF sv q]
  have i1: "steady s0 s1" and ok1: "storageFault w (clock s0) = None \<longrightarrow> (\<exists>p. r1 = Inr p)"
    by auto
  show ?thesis
  proof (cases r1)
    case (Inl e)
    with ok1 have "\<not> storesUp w" by (auto simp: storesUp_def)
    with r n0 sv Inl i0 i1 show ?thesis by (auto simp: uploadFile_def Let_def steady_def)
  next
    case (Inr fpath)
    obtain r2 s2 where md: "getImageMetadata w fpath s1 = (r2, s2)"
      by (cases "getImageMetadata w fpath s1") auto
    from metadata_steady [OF md q]
    have i2: "steady s1 s2" and ok2: "imageMetadataFault w (clock s1) = None \<longrightarrow> (\<exists>m. r2 = Inr m)"
      by auto
    show ?thesis
    proof (cases r2)
      case (Inl e)
      with ok2 have "\<not> storesUp w" by (auto simp: storesUp_def)
      with r n0 sv md Inr Inl i0 i1 i2 show ?thesis
        by (auto simp: uploadFile_def Let_def steady_def)
    next
      case m: (Inr m)
      obtain qid s3 where n3: "nextUuid w s2 = (qid, s3)" by (cases "nextUuid w s2") auto
      note i3 = nextUuid_steady [OF n3]
      have s03: "steady s s3"
        by (rule steady_trans [OF steady_trans [OF steady_trans [OF i0 i1] i2] i3])
      obtain st emb s4 where ea: "embedAtUpload w ai usr fpath qid ?fname s3 = ((st, emb), s4)"
        by (cases "embedAtUpload w ai usr fpath qid ?fname s3") auto
      note e4 = embedAtUpload_effect [OF ea q]
      let ?mk = "\<lambda>i now. \<lparr>image_id = i, filename = ?fname,
                   originalName = file_originalname file, filePath = fpath,
                   title =
                     trim (basename w (file_originalname file) (extname w (file_originalname file))),
                   qdrantId = qid, owner = usr, isEmbedded = emb, embeddingStatus = st,
                   embeddingError = None, embeddingAttempts = (if emb then 1 else 0),
                   lastEmbeddingAttempt = None, uploadDate = now, createdAt = now\<rparr>"
      obtain r5 s5 where cr: "Image_create w ?mk s4 = (r5, s5)"
        by (cases "Image_create w ?mk s4") auto
      note c5 = create_effect [OF cr q]
      show ?thesis
      proof (cases r5)
        case (Inl e)
        with c5 have "\<not> storesUp w" by (auto simp: storesUp_def)
        moreover from r n0 sv md Inr m n3 ea cr Inl have "r = Inl e" "s' = s5"
          by (simp_all add: uploadFile_def Let_def)
        ultimately show ?thesis
          using Inl c5 e4 s03 by (auto simp: steady_def isQdrantConnected_def)
      next
        case doc: (Inr doc)
        with c5 have dd: "doc = ?mk (newObjectId w (clock s4)) (wallClock w (clock s4))"
          by simp
        from dd e4 have f: "completedForm doc \<or> pendingForm doc"
            and g: "\<not> (ai \<and> isQdrantConnected s3) \<longrightarrow> pendingForm doc"
          by (auto simp: completedForm_def pendingForm_def)
        have h: "ai \<and> isQdrantConnected s3 \<and> qdrantClient s3 \<and> embeddingUp w \<longrightarrow>
                 completedForm doc \<and> isQdrantAvailable s4"
          using embedAtUpload_up [OF ea q] dd by (auto simp: completedForm_def)
        from r n0 sv md Inr m n3 ea cr doc
        have res: "r = Inr doc" "s' = linkPayload w emb qid (image_id doc) s5"
          by (simp_all add: uploadFile_def Let_def)
        from linkPayload_steady [OF q, of s5 emb qid "image_id doc"] res
        have l: "steady s5 s'" by simp
        from res(1) l c5 doc e4 s03 f g h show ?thesis
          by (auto simp: steady_def isQdrantConnected_def)
      qed
    qed
  qed
qed

lemma uploadFiles_effect:
  assumes q: "quiet w"
  shows "uploadFiles w usr ai files acc s = (acc', s') \<Longrightarrow>
     \<exists>docs. fst acc' = fst acc @ docs \<and> images s' = images s @ docs \<and>
       (\<forall>d\<in>set docs. completedForm d \<or> pendingForm d) \<and>
       (storesUp w \<longrightarrow> snd acc' = snd acc \<and> length docs = length files) \<and>
       (\<not> (ai \<and> isQdrantConnected s) \<longrightarrow> (\<forall>d\<in>set docs. pendingForm d)) \<and>
       (ai \<and> isQdrantConnected s \<and> qdrantClient s \<and> embeddingUp w \<and> storesUp w \<longrightarrow>
          (\<forall>d\<in>set docs. completedForm d))"
proof (induction files arbitrary: acc s)
  case Nil
  then show ?case by simp
next
  case (Cons f rest)
  obtain r1 s1 where u: "uploadFile w usr ai f s = (r1, s1)"
    by (cases "uploadFile w usr ai f s") auto
  note e = uploadFile_effect [OF u q]
  show ?case
  proof (cases r1)
    case (Inl err)
    let ?acc = "(fst acc, snd acc @ [(file_originalname f, message err)])"
    from Cons.prems u Inl have rec: "uploadFiles w usr ai rest ?acc s1 = (acc', s')" by simp
    from Cons.IH [OF rec] obtain docs where d:
      "fst acc' = fst ?acc @ docs" "images s' = images s1 @ docs"
      "\<forall>d\<in>set docs. completedForm d \<or> pendingForm d"
      "\<not> (ai \<and> isQdrantConnected s1) \<longrightarrow> (\<forall>d\<in>set docs. pendingForm d)"
      by blast
    from e Inl have ns: "\<not> storesUp w" and i: "images s1 = images s"
      and fr: "\<not> (ai \<and> isQdrantConnected s) \<longrightarrow> isQdrantAvailable s1 = isQdrantAvailable s"
      by auto
    from d i ns fr show ?thesis
      by (intro exI [of _ docs]) (auto simp: isQdrantConnected_def)
  next
    case (Inr doc)
    let ?acc = "(fst acc @ [doc], snd acc)"
    from Cons.prems u Inr have rec: "uploadFiles w usr ai rest ?acc s1 = (acc', s')" by simp
    from Cons.IH [OF rec] obtain docs where d:
      "fst acc' = fst ?acc @ docs" "images s' = images s1 @ docs"
      "\<forall>d\<in>set docs. completedForm d \<or> pendingForm d"
      "storesUp w \<longrightarrow> snd acc' = snd ?acc \<and> length docs = length rest"
      "\<not> (ai \<and> isQdrantConnected s1) \<longrightarrow> (\<forall>d\<in>set docs. pendingForm d)"
      "ai \<and> isQdrantConnected s1 \<and> qdrantClient s1 \<and> embeddingUp w \<and> storesUp w \<longrightarrow>
          (\<forall>d\<in>set docs. completedForm d)"
      by blast
    from e Inr have i: "images s1 = images s @ [doc]"
      and c: "qdrantClient s1 = qdrantClient s"
      and f: "completedForm doc \<or> pendingForm doc"
      and fr: "\<not> (ai \<and> isQdrantConnected s) \<longrightarrow>
                 isQdrantAvailable s1 = isQdrantAvailable s \<and> pendingForm doc"
      and up: "ai \<and> isQdrantConnected s \<and> qdrantClient s \<and> embeddingUp w \<longrightarrow>
                 completedForm doc \<and> isQdrantAvailable s1"
      by auto
    from d i c f fr up show ?thesis
      by (intro exI [of _ "doc # docs"]) (auto simp: isQdrantConnected_def)
  qed
qed

lemma forms_invariant: "completedForm d \<or> pendingForm d \<Longrightarrow> embeddedIffCompleted d"
  by (auto simp: completedForm_def pendingForm_def embeddedIffCompleted_def)

lemma uploadMultipleImages_effect:
  assumes q: "quiet w"
  shows "\<exists>docs. images (snd (uploadMultipleImages w req s)) = images s @ docs \<and>
       (\<forall>d\<in>set docs. completedForm d \<or> pendingForm d) \<and>
       (isMongoDBConnected s \<and> up_files req \<noteq> [] \<and> storesUp w \<longrightarrow>
          fst (uploadMultipleImages w req s) =
            (reply 201 True None)\<lparr>res_images := Some docs, res_uploadErrors := []\<rparr> \<and>
          length docs = length (up_files req) \<and>
          (\<not> (isAIModelReady s \<and> isQdrantConnected s) \<longrightarrow> (\<forall>d\<in>set docs. pendingForm d)) \<and>
          (isAIModelReady s \<and> isQdrantConnected s \<and> qdrantClient s \<and> embeddingUp w \<longrightarrow>
             (\<forall>d\<in>set docs. completedForm d)))"
proof (cases "isMongoDBConnected s \<and> up_files req \<noteq> []")
  case False
  then have "snd (uploadMultipleImages w req s) = s"
    by (auto simp: uploadMultipleImages_def)
  with False show ?thesis by (intro exI [of _ "[]"]) auto
next
  case True
  obtain up errs s1 where
    l: "uploadFiles w (up_user req) (isAIModelReady s) (up_files req) ([], []) s = ((up, errs), s1)"
    by (cases "uploadFiles w (up_user req) (isAIModelReady s) (up_files req) ([], []) s") auto
  from uploadFiles_effect [OF q l] obtain docs where d:
      "up = docs" "images s1 = images s @ docs"
      "\<forall>d\<in>set docs. completedForm d \<or> pendingForm d"
      "storesUp w \<longrightarrow> errs = [] \<and> length docs = length (up_files req)"
      "\<not> (isAIModelReady s \<and> isQdrantConnected s) \<longrightarrow> (\<forall>d\<in>set docs. pendingForm d)"
      "isAIModelReady s \<and> isQdrantConnected s \<and> qdrantClient s \<and> embeddingUp w \<and> storesUp w \<longrightarrow>
          (\<forall>d\<in>set docs. completedForm d)"
    by auto
  from True l have res: "uploadMultipleImages w req s =
     ((reply 201 True None)\<lparr>res_images := Some up, res_uploadErrors := errs\<rparr>, await w s1)"
    by (simp add: uploadMultipleImages_def)
  from d res show ?thesis
    by (intro exI [of _ docs]) (auto simp: await_quiet [OF q])
qed

lemma storeAtUpload_images: "quiet w \<Longrightarrow> images (storeAtUpload w usr path qid fname s) = images s"
  by (simp add: storeAtUpload_def checkQdrantHealth_def generateImageEmbedding_def
      qdrant_upsert_def await_quiet Let_def split: option.splits sum.splits)

lemma linkPayload_images: "quiet w \<Longrightarrow> images (linkPayload w e qid i s) = images s"
  using linkPayload_steady [of w s e qid i] by (simp add: steady_def)

lemma uploadOne_effect:
  assumes r: "uploadOne w req file s = (r, s')" and q: "quiet w"
  shows "(case r of
            Inl e \<Rightarrow> images s' = images s \<and> \<not> storesUp w
          | Inr doc \<Rightarrow> images s' = images s @ [doc] \<and> pendingForm doc)"
  using r
  by (auto simp: uploadOne_def nextUuid_def storage_saveFile_def getImageMetadata_def
      Image_create_def storeAtUpload_images [OF q] linkPayload_images [OF q] await_quiet [OF q]
      Let_def storesUp_def pendingForm_def
      split: option.splits sum.splits)

lemma uploadImage_effect:
  assumes q: "quiet w"
  shows "(images (snd (uploadImage w req s)) = images s \<or>
          (\<exists>doc. images (snd (uploadImage w req s)) = images s @ [doc] \<and> pendingForm doc)) \<and>
         (isMongoDBConnected s \<and> one_file req \<noteq> None \<and> storesUp w \<longrightarrow>
            (isAIModelReady s \<longrightarrow>
               (\<exists>doc. fst (uploadImage w req s) = (reply 201 True None)\<lparr>res_images := Some [doc]\<rparr> \<and>
                      images (snd (uploadImage w req s)) = images s @ [doc])) \<and>
            (\<not> isAIModelReady s \<longrightarrow>
               res_status (fst (uploadImage w req s)) = 503 \<and> snd (uploadImage w req s) = s))"
proof (cases "isMongoDBConnected s \<and> isAIModelReady s \<and> one_file req \<noteq> None")
  case False
  then have "snd (uploadImage w req s) = s"
    by (auto simp: uploadImage_def split: option.splits)
  moreover from False have "isMongoDBConnected s \<and> \<not> isAIModelReady s \<longrightarrow>
      res_status (fst (uploadImage w req s)) = 503"
    by (auto simp: uploadImage_def reply_def)
  ultimately show ?thesis using False by auto
next
  case True
  then obtain fl where f: "one_file req = Some fl" by auto
  obtain r1 s1 where u: "uploadOne w req fl s = (r1, s1)"
    by (cases "uploadOne w req fl s") auto
  note e = uploadOne_effect [OF u q]
  show ?thesis
  proof (cases r1)
    case (Inl err)
    with True f u e show ?thesis by (auto simp: uploadImage_def)
  next
    case (Inr doc)
    with True f u e show ?thesis by (auto simp: uploadImage_def)
  qed
qed

section \<open>The guard of the pipeline\<close>

text \<open>
  Every \<^verbatim>\<open>await\<close> of a pass happens with the guard set, and no step of the pass clears
  it before the end. So other tasks that do nothing while the guard is set cannot be
  told apart from no other tasks at all.
\<close>

lemma await_guarded:
  "guardedIdle w \<Longrightarrow> isProcessing s \<Longrightarrow> await w s = s\<lparr>clock := Suc (clock s)\<rparr>"
  by (simp add: await_def guardedIdle_def)

lemma await_calmed: "await (calmed w) s = s\<lparr>clock := Suc (clock s)\<rparr>"
  by (simp add: await_def calmed_def)

lemma calmed_fields:
  "dbFault (calmed w) = dbFault w" "qdrantFault (calmed w) = qdrantFault w"
  "embedImage (calmed w) = embedImage w" "wallClock (calmed w) = wallClock w"
  by (simp_all add: calmed_def)

lemma step_guarded:
  assumes g: "guardedIdle w" and p: "isProcessing s"
  shows "processImageEmbedding w img s = processImageEmbedding (calmed w) img s \<and>
         isProcessing (snd (processImageEmbedding (calmed w) img s))"
  using p
  by (simp add: processImageEmbedding_def embedAndStore_def storeInQdrant_def
      checkQdrantHealth_def qdrant_upsert_def generateImageEmbedding_def isQdrantConnected_def
      findByIdAndUpdate_def await_guarded [OF g] await_calmed calmed_fields Let_def
      split: option.splits sum.splits)

lemma batch_guarded:
  assumes g: "guardedIdle w"
  shows "isProcessing s \<Longrightarrow>
         processBatch w batch counts s = processBatch (calmed w) batch counts s \<and>
         isProcessing (snd (processBatch (calmed w) batch counts s))"
proof (induction batch arbitrary: counts s)
  case Nil
  then show ?case by simp
next
  case (Cons b rest)
  obtain r1 s1 where st: "processImageEmbedding (calmed w) b s = (r1, s1)"
    by (cases "processImageEmbedding (calmed w) b s") auto
  from step_guarded [OF g Cons.prems, of b] st
  have eq: "processImageEmbedding w b s = (r1, s1)" and p1: "isProcessing s1" by auto
  show ?case
  proof (cases r1)
    case (Inl e)
    with eq st p1 show ?thesis by simp
  next
    case (Inr ok)
    with eq st Cons.IH [OF p1] show ?thesis by simp
  qed
qed

lemma drain_guarded:
  assumes g: "guardedIdle w" and p: "isProcessing s"
  shows "drainBatch w s = drainBatch (calmed w) s"
proof -
  let ?q = "needsEmbedding (wallClock w (clock s))"
  have f: "Image_find_limit w ?q 10 s = Image_find_limit (calmed w) ?q 10 s"
    using p by (simp add: Image_find_limit_def await_guarded [OF g] await_calmed calmed_fields
        split: option.splits)
  obtain r1 s1 where f1: "Image_find_limit (calmed w) ?q 10 s = (r1, s1)"
    by (cases "Image_find_limit (calmed w) ?q 10 s") auto
  then have p1: "isProcessing s1"
    using p by (auto simp: Image_find_limit_def await_calmed split: option.splits)
  show ?thesis
  proof (cases r1)
    case (Inl e)
    with f f1 show ?thesis by (simp add: drainBatch_def calmed_fields)
  next
    case (Inr batch)
    obtain r2 s2 where b2: "processBatch (calmed w) batch (0, 0) s1 = (r2, s2)"
      by (cases "processBatch (calmed w) batch (0, 0) s1") auto
    from batch_guarded [OF g p1, of batch "(0, 0)"] b2
    have b: "processBatch w batch (0, 0) s1 = (r2, s2)" and p2: "isProcessing s2" by auto
    have c: "countDocuments w stillNeedsEmbedding s2 = countDocuments (calmed w) stillNeedsEmbedding s2"
      using p2 by (simp add: countDocuments_def await_guarded [OF g] await_calmed calmed_fields
          split: option.splits)
    from f f1 Inr b b2 c show ?thesis
      by (simp add: drainBatch_def calmed_fields split: sum.splits)
  qed
qed

lemma pass_guarded:
  "guardedIdle w \<Longrightarrow> processPendingEmbeddings w s = processPendingEmbeddings (calmed w) s"
  by (simp add: processPendingEmbeddings_def drain_guarded isAIModelReady_def)

lemma pass_skips: "isProcessing s \<Longrightarrow> processPendingEmbeddings w s = s"
  by (simp add: processPendingEmbeddings_def)

lemma pass_clears: "\<not> isProcessing s \<Longrightarrow> \<not> isProcessing (processPendingEmbeddings w s)"
  by (simp add: processPendingEmbeddings_def split: prod.splits)

lemma triggers_guardedIdle: "guardedIdle (withTriggers K w)"
  by (simp add: guardedIdle_def withTriggers_def pass_skips)

lemma calmed_withTriggers: "calmed (withTriggers K w) = calmed w"
  by (simp add: calmed_def withTriggers_def)

section \<open>The search handler in a quiet world\<close>

text \<open>
  The handler counts the records that are not embedded, decides whether the AI path is
  open, and runs it. The lemmas give the result of each of these steps in terms of the
  state the request arrived in.
\<close>

lemma count_quiet:
  "quiet w \<Longrightarrow> dbFault w (clock s) = None \<Longrightarrow>
   countDocuments w q s = (Inr (length (filter q (images s))), s\<lparr>clock := Suc (clock s)\<rparr>)"
  by (simp add: countDocuments_def await_quiet)

lemma useAISearch_quiet:
  "quiet w \<Longrightarrow>
   fst (useAISearch w s) = (indexHealthyAt w s \<and> isAIModelReady s) \<and>
   images (snd (useAISearch w s)) = images s \<and>
   qpoints (snd (useAISearch w s)) = qpoints s \<and>
   collections (snd (useAISearch w s)) = collections s \<and>
   qdrantClient (snd (useAISearch w s)) = qdrantClient s \<and>
   clock (snd (useAISearch w s)) =
     (if isQdrantConnected s \<and> qdrantClient s then Suc (clock s) else clock s)"
  by (auto simp: useAISearch_def checkQdrantHealth_def indexHealthyAt_def isAIModelReady_def
      isQdrantConnected_def await_quiet Let_def split: option.splits)

lemma searchImages_closed:
  "quiet w \<and> hasQuery req \<and>
   \<not> (indexHealthyAt w (s\<lparr>clock := Suc (clock s)\<rparr>) \<and> isAIModelReady s) \<longrightarrow>
     res_images (fst (searchImages w req s)) = None \<and>
     res_searchType (fst (searchImages w req s)) \<noteq> Some ''all'' \<and>
     images (snd (searchImages w req s)) = images s \<and>
     (dbFault w (clock s) = None \<longrightarrow>
        fst (searchImages w req s) = unavailableResponse \<and>
        res_status (fst (searchImages w req s)) = 503 \<and>
        res_searchType (fst (searchImages w req s)) = Some ''unavailable'')"
proof
  assume h: "quiet w \<and> hasQuery req \<and>
   \<not> (indexHealthyAt w (s\<lparr>clock := Suc (clock s)\<rparr>) \<and> isAIModelReady s)"
  then have q: "quiet w" and hq: "hasQuery req"
    and un: "\<not> (indexHealthyAt w (s\<lparr>clock := Suc (clock s)\<rparr>) \<and> isAIModelReady s)" by auto
  let ?cq = "\<lambda>i. owner i = sr_user req \<and> \<not> isEmbedded i"
  show "res_images (fst (searchImages w req s)) = None \<and>
     res_searchType (fst (searchImages w req s)) \<noteq> Some ''all'' \<and>
     images (snd (searchImages w req s)) = images s \<and>
     (dbFault w (clock s) = None \<longrightarrow>
        fst (searchImages w req s) = unavailableResponse \<and>
        res_status (fst (searchImages w req s)) = 503 \<and>
        res_searchType (fst (searchImages w req s)) = Some ''unavailable'')"
  proof (cases "dbFault w (clock s)")
    case (Some e)
    then have "countDocuments w ?cq s = (Inl e, s\<lparr>clock := Suc (clock s)\<rparr>)"
      by (simp add: countDocuments_def await_quiet [OF q])
    with hq Some show ?thesis by (simp add: searchImages_def reply_def)
  next
    case None
    let ?s1 = "s\<lparr>clock := Suc (clock s)\<rparr>"
    note c = count_quiet [OF q None, of ?cq]
    note u = useAISearch_quiet [OF q, of ?s1]
    from un have nu: "\<not> fst (useAISearch w ?s1)" using u by (simp add: isAIModelReady_def)
    obtain b s2 where us: "useAISearch w ?s1 = (b, s2)" by (cases "useAISearch w ?s1") auto
    with nu u have b: "\<not> b" and i2: "images s2 = images s" by auto
    from hq c us b have "searchImages w req s = (unavailableResponse, s2)"
      by (simp add: searchImages_def unavailableResponse_def)
    with i2 None show ?thesis by (simp add: unavailableResponse_def reply_def)
  qed
qed

lemma aiSearchError_tag:
  "res_searchType (aiSearchError e) = Some ''ai'' \<and> res_images (aiSearchError e) = None \<and>
   \<not> res_success (aiSearchError e) \<and>
   (res_status (aiSearchError e) = 400 \<or> res_status (aiSearchError e) = 500)"
  by (simp add: aiSearchError_def reply_def)

lemma aiSearchError_plain:
  "aiSearchError (Error ''Invalid embedding generated'' None) = aiFailure ''Invalid embedding generated''"
  "aiSearchError (Error ''No embedded images available for AI search'' None)
     = aiFailure ''No embedded images available for AI search''"
  by (simp_all add: aiSearchError_def aiFailure_def)

lemma aiSearch_images:
  "quiet w \<Longrightarrow> images (snd (aiSearch w req n s)) = images s"
  by (simp add: aiSearch_def generateTextEmbedding_def qdrant_getCollection_def
      qdrant_search_def Image_find_def await_quiet Let_def split: option.splits sum.splits)

lemma aiSearch_empty_embedding:
  "quiet w \<Longrightarrow> embedText w (clock s) (queryOf req) = Inr [] \<Longrightarrow>
   fst (aiSearch w req n s) = Inl (Error ''Invalid embedding generated'' None)"
  by (simp add: aiSearch_def generateTextEmbedding_def)

lemma aiSearch_zero_points:
  "quiet w \<Longrightarrow> embedText w (clock s) (queryOf req) = Inr v \<Longrightarrow> v \<noteq> [] \<Longrightarrow>
   qdrantClient s \<Longrightarrow> qdrantFault w (Suc (clock s)) = None \<Longrightarrow> qpoints s = [] \<Longrightarrow>
   fst (aiSearch w req n s) = Inl (Error ''No embedded images available for AI search'' None)"
  by (simp add: aiSearch_def generateTextEmbedding_def qdrant_getCollection_def await_quiet)

lemma aiSearch_no_points_fails:
  "quiet w \<Longrightarrow> qpoints s = [] \<Longrightarrow> \<exists>e. fst (aiSearch w req n s) = Inl e"
  by (simp add: aiSearch_def generateTextEmbedding_def qdrant_getCollection_def await_quiet
      split: option.splits sum.splits)

lemma aiSearch_success:
  "quiet w \<Longrightarrow> fst (aiSearch w req n s) = Inr res \<Longrightarrow>
   \<exists>emb. embedText w (clock s) (queryOf req) = Inr emb \<and> emb \<noteq> [] \<and>
     res_images res =
       Some (slice0
               (sort_key (\<lambda>a. - scoreOf (qdrantSearch w (Suc (Suc (clock s))) (qpoints s) emb
                                            (limitOf req * 3)) a)
                  (survivors w req
                     (qdrantSearch w (Suc (Suc (clock s))) (qpoints s) emb (limitOf req * 3))
                     (images s)))
               (limitOf req)) \<and>
     res_status res = 200 \<and> res_searchType res = Some ''ai''"
  by (auto simp: aiSearch_def generateTextEmbedding_def qdrant_getCollection_def
      qdrant_search_def Image_find_def await_quiet Let_def survivors_def reply_def
      split: option.splits sum.splits if_splits)

lemma searchImages_ai_path:
  assumes q: "quiet w" and hq: "hasQuery req" and db: "dbFault w (clock s) = None"
    and ih: "indexHealthyAt w (s\<lparr>clock := Suc (clock s)\<rparr>)" and mr: "isAIModelReady s"
  shows "\<exists>n s2. clock s2 = Suc (Suc (clock s)) \<and> images s2 = images s \<and>
           qpoints s2 = qpoints s \<and> qdrantClient s2 \<and>
           fst (searchImages w req s) =
             (case fst (aiSearch w req n s2) of Inr res \<Rightarrow> res | Inl e \<Rightarrow> aiSearchError e) \<and>
           images (snd (searchImages w req s)) = images s"
proof -
  let ?cq = "\<lambda>i. owner i = sr_user req \<and> \<not> isEmbedded i"
  let ?s1 = "s\<lparr>clock := Suc (clock s)\<rparr>"
  let ?n = "length (filter ?cq (images s))"
  note c = count_quiet [OF q db, of ?cq]
  note u = useAISearch_quiet [OF q, of ?s1]
  obtain b s2 where us: "useAISearch w ?s1 = (b, s2)" by (cases "useAISearch w ?s1") auto
  with u ih mr have b: "b" and i2: "images s2 = images s" and p2: "qpoints s2 = qpoints s"
    and c2: "clock s2 = Suc (Suc (clock s))" and cl: "qdrantClient s2"
    by (auto simp: isAIModelReady_def indexHealthyAt_def isQdrantConnected_def)
  obtain r3 s3 where a: "aiSearch w req ?n s2 = (r3, s3)" by (cases "aiSearch w req ?n s2") auto
  from aiSearch_images [OF q, of req ?n s2] a i2 have i3: "images s3 = images s" by simp
  from hq c us b a have "searchImages w req s =
      (case r3 of Inr res \<Rightarrow> res | Inl e \<Rightarrow> aiSearchError e, s3)"
    by (simp add: searchImages_def split: sum.splits)
  with a i2 p2 c2 cl i3 show ?thesis
    by (intro exI [of _ ?n] exI [of _ s2]) simp
qed

lemma slice0_prefix: "\<exists>k. slice0 xs n = take k xs \<and> (0 \<le> n \<longrightarrow> k = nat n)"
  by (auto simp: slice0_def)

lemma find_hit:
  "i \<in> set (imageIdsOf hits) \<Longrightarrow>
   \<exists>h. find (\<lambda>r. hit_imageId r = Some i) hits = Some h \<and> hit_imageId h = Some i"
proof -
  assume "i \<in> set (imageIdsOf hits)"
  then have "\<exists>x\<in>set hits. hit_imageId x = Some i"
    by (auto simp: imageIdsOf_def List.map_filter_def)
  then have "find (\<lambda>r. hit_imageId r = Some i) hits \<noteq> None"
    by (auto simp: find_None_iff)
  then obtain h where h: "find (\<lambda>r. hit_imageId r = Some i) hits = Some h" by auto
  then have "hit_imageId h = Some i" by (auto simp: find_Some_iff)
  with h show ?thesis by blast
qed

lemma descending_sort:
  "sorted_wrt (\<lambda>a b. f b \<le> (f a :: real)) (sort_key (\<lambda>a. - f a) xs)"
proof -
  have "sorted (map (\<lambda>a. - f a) (sort_key (\<lambda>a. - f a) xs))" by (rule sorted_sort_key)
  then show ?thesis by (simp add: sorted_map)
qed

lemma ranked_prefix:
  fixes f :: "image \<Rightarrow> real"
  assumes r: "ranked = take k (sort_key (\<lambda>a. - f a) xs)"
  shows "set ranked \<subseteq> set xs \<and> sorted_wrt (\<lambda>a b. f b \<le> f a) ranked \<and>
         length ranked = min k (length xs) \<and>
         (\<forall>x\<in>set xs. x \<notin> set ranked \<longrightarrow> (\<forall>y\<in>set ranked. f x \<le> f y))"
proof -
  let ?ys = "sort_key (\<lambda>a. - f a) xs"
  have s: "sorted_wrt (\<lambda>a b. f b \<le> f a) ?ys" by (rule descending_sort)
  have sub: "set ranked \<subseteq> set xs" unfolding r using set_take_subset [of k ?ys] by simp
  have srt: "sorted_wrt (\<lambda>a b. f b \<le> f a) ranked"
    unfolding r by (rule sorted_wrt_take [OF s])
  have len: "length ranked = min k (length xs)" unfolding r by (simp add: min.commute)
  have "sorted_wrt (\<lambda>a b. f b \<le> f a) (take k ?ys @ drop k ?ys)" using s by simp
  then have cross: "\<forall>y\<in>set (take k ?ys). \<forall>x\<in>set (drop k ?ys). f x \<le> f y"
    unfolding sorted_wrt_append by blast
  have top: "\<forall>x\<in>set xs. x \<notin> set ranked \<longrightarrow> (\<forall>y\<in>set ranked. f x \<le> f y)"
  proof (intro ballI impI)
    fix x y assume x: "x \<in> set xs" and nx: "x \<notin> set ranked" and y: "y \<in> set ranked"
    from x have "x \<in> set ?ys" by simp
    then have "x \<in> set (take k ?ys) \<union> set (drop k ?ys)"
      by (metis append_take_drop_id set_append)
    with nx have "x \<in> set (drop k ?ys)" unfolding r by blast
    with cross y show "f x \<le> f y" unfolding r by blast
  qed
  from sub srt len top show ?thesis by blast
qed

lemma ai_success_path:
  assumes q: "quiet w" and st: "res_status (fst (searchImages w req s)) = 200"
    and ty: "res_searchType (fst (searchImages w req s)) = Some ''ai''"
  shows "hasQuery req \<and> dbFault w (clock s) = None \<and>
         indexHealthyAt w (s\<lparr>clock := Suc (clock s)\<rparr>) \<and> isAIModelReady s"
proof -
  have hq: "hasQuery req"
  proof (rule ccontr)
    assume "\<not> hasQuery req"
    with ty show False
      by (auto simp: searchImages_def Image_find_def reply_def split: option.splits)
  qed
  have ok: "indexHealthyAt w (s\<lparr>clock := Suc (clock s)\<rparr>) \<and> isAIModelReady s"
  proof (rule ccontr)
    assume "\<not> (indexHealthyAt w (s\<lparr>clock := Suc (clock s)\<rparr>) \<and> isAIModelReady s)"
    with searchImages_closed [of w req s] q hq
    have "res_images (fst (searchImages w req s)) = None \<and>
          (dbFault w (clock s) = None \<longrightarrow> res_status (fst (searchImages w req s)) = 503)"
      by blast
    moreover have "dbFault w (clock s) \<noteq> None \<longrightarrow> res_status (fst (searchImages w req s)) = 500"
      using hq by (auto simp: searchImages_def countDocuments_def reply_def)
    ultimately show False using st by auto
  qed
  have db: "dbFault w (clock s) = None"
  proof (rule ccontr)
    assume "dbFault w (clock s) \<noteq> None"
    with hq have "res_status (fst (searchImages w req s)) = 500"
      by (auto simp: searchImages_def countDocuments_def reply_def)
    with st show False by simp
  qed
  from hq ok db show ?thesis by blast
qed

section \<open>The delete handler in a quiet world\<close>

text \<open>What removing the first record with a given id does to a store with distinct ids.\<close>

lemma deleteFirst_gone: "distinct (map image_id xs) \<Longrightarrow> i \<notin> image_id ` set (deleteFirst i xs)"
  by (induction xs) auto

lemma deleteFirst_keeps: "x \<in> set xs \<Longrightarrow> image_id x \<noteq> i \<Longrightarrow> x \<in> set (deleteFirst i xs)"
  by (induction xs) auto

lemma deleteFirst_subset: "set (deleteFirst i xs) \<subseteq> set xs"
  by (induction xs) auto

lemma deleteImage_run:
  assumes q: "quiet w" and db: "\<forall>k. dbFault w k = None"
    and f: "find (\<lambda>x. image_id x = del_id req) (images s) = Some img"
    and own: "owner img = del_user req"
  shows "fst (deleteImage w req s) = reply 200 True (Some ''Image deleted successfully'') \<and>
         images (snd (deleteImage w req s)) = deleteFirst (del_id req) (images s) \<and>
         collections (snd (deleteImage w req s)) =
           map (\<lambda>c. c\<lparr>collection_images := removeAll (del_id req) (collection_images c)\<rparr>)
             (collections s) \<and>
         qpoints (snd (deleteImage w req s)) =
           (if vectorRemovable w img s
            then filter (\<lambda>kp. fst kp \<noteq> qdrantId img) (qpoints s) else qpoints s)"
proof -
  from f have i: "image_id img = del_id req" by (auto simp: find_Some_iff)
  from db have d: "\<And>k. dbFault w k = None" by simp
  show ?thesis
    using f own i
    by (simp add: deleteImage_def Image_findById_def storage_deleteFile_def removeVector_def
        qdrant_delete_def Collection_pull_def Image_deleteOne_def await_quiet [OF q] d
        vectorRemovable_def isQdrantConnected_def Let_def numeral_2_eq_2
        split: option.splits)
qed

section \<open>What a pass attempts\<close>

lemma step_nofault:
  assumes r: "processImageEmbedding w img s = (r, s')" and q: "quiet w"
    and d: "\<And>k. dbFault w k = None"
  shows "(\<exists>ok. r = Inr ok) \<and>
     (images s' = updateFirst (image_id img) markCompleted
                     (updateFirst (image_id img) (markProcessing (wallClock w (clock s))) (images s)) \<or>
      (\<exists>m. images s' = updateFirst (image_id img) (markFailed m)
                     (updateFirst (image_id img) (markProcessing (wallClock w (clock s))) (images s))))"
proof -
  obtain r1 s1 where e: "embedAndStore w img s = (r1, s1)"
    by (cases "embedAndStore w img s") auto
  have first: "findByIdAndUpdate w (image_id img) (markProcessing (wallClock w (clock s))) s
      = (Inr (), s\<lparr>images := updateFirst (image_id img) (markProcessing (wallClock w (clock s))) (images s),
                    clock := Suc (clock s)\<rparr>)"
    by (simp add: findByIdAndUpdate_def d await_quiet [OF q])
  from embedAndStore_images [OF e q] first e
  have c: "(r1 = Inr () \<and> images s1 = updateFirst (image_id img) markCompleted
                     (updateFirst (image_id img) (markProcessing (wallClock w (clock s))) (images s))) \<or>
           ((\<exists>err. r1 = Inl err) \<and>
              images s1 = updateFirst (image_id img) (markProcessing (wallClock w (clock s))) (images s))"
    by (auto simp: embedAndStore_def generateImageEmbedding_def await_quiet [OF q]
        findByIdAndUpdate_def d
        split: sum.splits prod.splits dest!: store_images [OF _ q])
  show ?thesis
  proof (cases r1)
    case (Inr u)
    with r e c show ?thesis by (auto simp: processImageEmbedding_def)
  next
    case (Inl err)
    with r e c show ?thesis
      by (auto simp: processImageEmbedding_def findByIdAndUpdate_def d await_quiet [OF q])
  qed
qed

lemma updateFirst_twice:
  "(\<And>x. image_id (f x) = image_id x) \<Longrightarrow>
   updateFirst i g (updateFirst i f xs) = updateFirst i (\<lambda>x. g (f x)) xs"
  by (induction xs) auto

lemma updateFirst_rel:
  "distinct (map image_id xs) \<Longrightarrow>
   list_all2 (\<lambda>old new. if image_id old = i then new = h old else new = old) xs (updateFirst i h xs)"
proof (induction xs)
  case Nil
  then show ?case by simp
next
  case (Cons x xs)
  show ?case
  proof (cases "image_id x = i")
    case True
    from Cons.prems True have "i \<notin> image_id ` set xs" by simp
    then have "\<And>z. z \<in> set xs \<Longrightarrow> image_id z \<noteq> i" by blast
    then have "list_all2 (\<lambda>old new. if image_id old = i then new = h old else new = old) xs xs"
      by (intro list.rel_refl_strong) simp
    with True show ?thesis by simp
  next
    case False
    with Cons show ?thesis by simp
  qed
qed

lemma attempted_completed: "attempted x (markCompleted (markProcessing t x))"
  by (simp add: attempted_def markCompleted_def markProcessing_def)

lemma attempted_failed: "attempted x (markFailed m (markProcessing t x))"
  by (simp add: attempted_def markFailed_def markProcessing_def)

lemma step_attempts:
  assumes r: "processImageEmbedding w img s = (r, s')" and q: "quiet w"
    and d: "\<And>k. dbFault w k = None" and dist: "distinct (map image_id (images s))"
  shows "(\<exists>ok. r = Inr ok) \<and>
         list_all2 (attemptedIn [image_id img]) (images s) (images s')"
proof -
  let ?i = "image_id img" and ?t = "wallClock w (clock s)"
  from step_nofault [OF r q d] have ok: "\<exists>ok. r = Inr ok"
    and c: "images s' = updateFirst ?i markCompleted (updateFirst ?i (markProcessing ?t) (images s)) \<or>
      (\<exists>m. images s' = updateFirst ?i (markFailed m) (updateFirst ?i (markProcessing ?t) (images s)))"
    by auto
  from c obtain h where h: "images s' = updateFirst ?i h (images s)"
    and a: "\<And>x. attempted x (h x)"
  proof
    assume "images s' = updateFirst ?i markCompleted (updateFirst ?i (markProcessing ?t) (images s))"
    then have "images s' = updateFirst ?i (\<lambda>x. markCompleted (markProcessing ?t x)) (images s)"
      by (simp add: updateFirst_twice markProcessing_fields)
    then show ?thesis using attempted_completed by (rule that)
  next
    assume "\<exists>m. images s' = updateFirst ?i (markFailed m) (updateFirst ?i (markProcessing ?t) (images s))"
    then obtain m where
      "images s' = updateFirst ?i (markFailed m) (updateFirst ?i (markProcessing ?t) (images s))"
      by blast
    then have "images s' = updateFirst ?i (\<lambda>x. markFailed m (markProcessing ?t x)) (images s)"
      by (simp add: updateFirst_twice markProcessing_fields)
    then show ?thesis using attempted_failed by (rule that)
  qed
  from updateFirst_rel [OF dist, of ?i h]
  have "list_all2 (attemptedIn [?i]) (images s) (updateFirst ?i h (images s))"
    by (rule list_all2_mono) (auto simp: attemptedIn_def a)
  with ok h show ?thesis by simp
qed

lemma list_all2_ids:
  "list_all2 (attemptedIn ids) xs ys \<Longrightarrow> map image_id ys = map image_id xs"
  by (induction xs ys rule: list_all2_induct) (auto simp: attemptedIn_def attempted_def split: if_splits)

lemma batch_attempts:
  assumes q: "quiet w" and d: "\<And>k. dbFault w k = None"
  shows "processBatch w batch counts s = (r, s') \<Longrightarrow>
     distinct (map image_id (images s)) \<Longrightarrow> distinct (map image_id batch) \<Longrightarrow>
     list_all2 (attemptedIn (map image_id batch)) (images s) (images s')"
proof (induction batch arbitrary: counts s)
  case Nil
  then show ?case by (simp add: attemptedIn_def list.rel_refl)
next
  case (Cons b rest)
  obtain r1 s1 where st: "processImageEmbedding w b s = (r1, s1)"
    by (cases "processImageEmbedding w b s") auto
  from step_attempts [OF st q d Cons.prems(2)] obtain ok where ok: "r1 = Inr ok"
    and a1: "list_all2 (attemptedIn [image_id b]) (images s) (images s1)" by blast
  let ?c = "if ok then (fst counts + 1, snd counts) else (fst counts, snd counts + 1)"
  from Cons.prems(1) st ok have rec: "processBatch w rest ?c s1 = (r, s')" by simp
  from list_all2_ids [OF a1] Cons.prems(2) have d1: "distinct (map image_id (images s1))" by simp
  from Cons.prems(3) have dr: "distinct (map image_id rest)"
    and nb: "image_id b \<notin> set (map image_id rest)" by simp_all
  from Cons.IH [OF rec d1 dr]
  have a2: "list_all2 (attemptedIn (map image_id rest)) (images s1) (images s')" .
  show ?case
  proof (rule list_all2_trans [OF _ a1 a2])
    fix x y z
    assume xy: "attemptedIn [image_id b] x y" and yz: "attemptedIn (map image_id rest) y z"
    show "attemptedIn (map image_id (b # rest)) x z"
    proof (cases "image_id x = image_id b")
      case True
      with xy have a: "attempted x y" by (simp add: attemptedIn_def)
      then have "image_id y = image_id b" using True by (simp add: attempted_def)
      with nb yz have "z = y" by (simp add: attemptedIn_def)
      with a True show ?thesis by (simp add: attemptedIn_def)
    next
      case False
      with xy have "y = x" by (simp add: attemptedIn_def)
      with yz False show ?thesis by (simp add: attemptedIn_def)
    qed
  qed
qed

lemma needsEmbedding_is_strict: "needsEmbedding now = eligible_strict now"
  by (rule ext) (auto simp: needsEmbedding_def eligible_strict_def MAX_EMBEDDING_ATTEMPTS_def
      RETRY_DELAY_def split: option.splits)

lemma attemptedIn_same: "list_all2 (attemptedIn []) xs xs"
  by (rule list.rel_refl) (simp add: attemptedIn_def)

lemma drain_attempts:
  assumes r: "drainBatch w s = (r, s')" and q: "quiet w"
    and nf: "\<And>k. dbFault w k = None"
    and d: "distinct (map image_id (images s))"
  shows "list_all2 (attemptedIn (map image_id (firstEligible (wallClock w (clock s)) (images s))))
           (images s) (images s')"
proof -
  let ?now = "wallClock w (clock s)"
  let ?B = "firstEligible ?now (images s)"
  let ?s1 = "s\<lparr>clock := Suc (clock s)\<rparr>"
  have f: "Image_find_limit w (needsEmbedding ?now) 10 s = (Inr ?B, ?s1)"
    by (simp add: Image_find_limit_def nf await_quiet [OF q] firstEligible_def
        needsEmbedding_is_strict)
  show ?thesis
  proof (cases "?B = []")
    case True
    with r f have "s' = ?s1\<lparr>isProcessing := False\<rparr>" by (simp add: drainBatch_def)
    with True show ?thesis by (simp add: attemptedIn_same)
  next
    case False
    obtain r2 s2 where p: "processBatch w ?B (0, 0) ?s1 = (r2, s2)"
      by (cases "processBatch w ?B (0, 0) ?s1") auto
    have "distinct (take 10 (map image_id (filter (eligible_strict ?now) (images s))))"
      by (rule distinct_take) (rule distinct_map_filter [OF d])
    then have db: "distinct (map image_id ?B)"
      by (simp add: take_map firstEligible_def)
    from d have d1: "distinct (map image_id (images ?s1))" by simp
    from batch_attempts [OF q nf p d1 db]
    have post: "list_all2 (attemptedIn (map image_id ?B)) (images s) (images s2)" by simp
    show ?thesis
    proof (cases r2)
      case (Inl e)
      with r f False p have "s' = s2" by (simp add: drainBatch_def)
      with post show ?thesis by simp
    next
      case cnt: (Inr counts)
      obtain r3 s3 where c: "countDocuments w stillNeedsEmbedding s2 = (r3, s3)"
        by (cases "countDocuments w stillNeedsEmbedding s2") auto
      with r f False p cnt have "s' = s3"
        by (auto simp: drainBatch_def split: sum.splits)
      with post count_images [OF c q] show ?thesis by simp
    qed
  qed
qed

lemma pass_attempts:
  assumes q: "quiet w" and nf: "\<And>k. dbFault w k = None"
    and d: "distinct (map image_id (images s))"
    and g: "\<not> isProcessing s" and m: "isAIModelReady s"
  shows "list_all2 (attemptedIn (map image_id (firstEligible (wallClock w (clock s)) (images s))))
           (images s) (images (processPendingEmbeddings w s))"
proof -
  obtain r1 s1 where dr: "drainBatch w (s\<lparr>isProcessing := True\<rparr>) = (r1, s1)"
    by (cases "drainBatch w (s\<lparr>isProcessing := True\<rparr>)") auto
  from g m dr have res: "processPendingEmbeddings w s = s1\<lparr>isProcessing := False\<rparr>"
    by (simp add: processPendingEmbeddings_def)
  from drain_attempts [OF dr q nf] d res show ?thesis by simp
qed

lemma firstEligible_subset:
  "set (firstEligible now db) \<subseteq> {i \<in> set db. eligible_strict now i}"
  unfolding firstEligible_def
  using set_take_subset [of 10 "filter (eligible_strict now) db"] by auto

lemma firstEligible_all:
  "length (filter (eligible_strict now) db) \<le> 10 \<Longrightarrow>
   firstEligible now db = filter (eligible_strict now) db"
  by (simp add: firstEligible_def)

lemma untouched_same: "list_all2 (untouchedOutside ids) xs xs"
  by (rule list.rel_refl) (simp add: untouchedOutside_def)

lemma updateFirst_untouched:
  "(\<And>x. image_id (h x) = image_id x) \<Longrightarrow>
   list_all2 (untouchedOutside [i]) xs (updateFirst i h xs)"
  by (induction xs) (auto simp: untouchedOutside_def untouched_same)

lemma step_untouched:
  assumes r: "processImageEmbedding w img s = (r, s')" and q: "quiet w"
  shows "list_all2 (untouchedOutside [image_id img]) (images s) (images s')"
proof -
  let ?i = "image_id img" and ?t = "wallClock w (clock s)"
  from processImageEmbedding_images [OF r q]
  consider "images s' = images s"
    | "images s' = updateFirst ?i (markProcessing ?t) (images s)"
    | "images s' = updateFirst ?i (\<lambda>x. markCompleted (markProcessing ?t x)) (images s)"
    | m where "images s' = updateFirst ?i (markFailed m) (images s)"
    | m where "images s' = updateFirst ?i (\<lambda>x. markFailed m (markProcessing ?t x)) (images s)"
    by (auto simp: updateFirst_twice markProcessing_fields)
  then show ?thesis
  proof cases
    case 1
    then show ?thesis by (simp add: untouched_same)
  next
    case 2
    then show ?thesis by (simp add: updateFirst_untouched markProcessing_fields)
  next
    case 3
    then show ?thesis
      by (simp add: updateFirst_untouched markProcessing_fields markCompleted_fields)
  next
    case 4
    then show ?thesis by (simp add: updateFirst_untouched markFailed_fields)
  next
    case 5
    then show ?thesis
      by (simp add: updateFirst_untouched markProcessing_fields markFailed_fields)
  qed
qed

lemma batch_untouched:
  assumes q: "quiet w"
  shows "processBatch w batch counts s = (r, s') \<Longrightarrow>
     list_all2 (untouchedOutside (map image_id batch)) (images s) (images s')"
proof (induction batch arbitrary: counts s)
  case Nil
  then show ?case by (simp add: untouched_same)
next
  case (Cons b rest)
  obtain r1 s1 where st: "processImageEmbedding w b s = (r1, s1)"
    by (cases "processImageEmbedding w b s") auto
  have a1: "list_all2 (untouchedOutside [image_id b]) (images s) (images s1)"
    by (rule step_untouched [OF st q])
  show ?case
  proof (cases r1)
    case (Inl e)
    with Cons.prems st have "s' = s1" by simp
    with a1 show ?thesis
      by (auto elim!: list_all2_mono simp: untouchedOutside_def)
  next
    case (Inr ok)
    let ?c = "if ok then (fst counts + 1, snd counts) else (fst counts, snd counts + 1)"
    from Cons.prems st Inr have rec: "processBatch w rest ?c s1 = (r, s')" by simp
    have a2: "list_all2 (untouchedOutside (map image_id rest)) (images s1) (images s')"
      by (rule Cons.IH [OF rec])
    show ?thesis
      by (rule list_all2_trans [OF _ a1 a2]) (auto simp: untouchedOutside_def)
  qed
qed

lemma drain_untouched:
  assumes r: "drainBatch w s = (r, s')" and q: "quiet w"
  shows "list_all2 (untouchedOutside (map image_id (firstEligible (wallClock w (clock s)) (images s))))
           (images s) (images s')"
proof -
  let ?now = "wallClock w (clock s)"
  let ?B = "firstEligible ?now (images s)"
  obtain r1 s1 where f: "Image_find_limit w (needsEmbedding ?now) 10 s = (r1, s1)"
    by (cases "Image_find_limit w (needsEmbedding ?now) 10 s") auto
  have i1: "images s1 = images s" by (rule find_limit_images [OF f q])
  show ?thesis
  proof (cases r1)
    case (Inl e)
    with r f have "s' = s1" by (simp add: drainBatch_def)
    with i1 show ?thesis by (simp add: untouched_same)
  next
    case (Inr batch)
    with f have b: "batch = ?B"
      by (simp add: find_limit_result firstEligible_def needsEmbedding_is_strict)
    show ?thesis
    proof (cases "?B = []")
      case True
      with r f Inr b have "s' = s1\<lparr>isProcessing := False\<rparr>" by (simp add: drainBatch_def)
      with i1 show ?thesis by (simp add: untouched_same)
    next
      case False
      obtain r2 s2 where p: "processBatch w ?B (0, 0) s1 = (r2, s2)"
        by (cases "processBatch w ?B (0, 0) s1") auto
      from batch_untouched [OF q p] i1
      have post: "list_all2 (untouchedOutside (map image_id ?B)) (images s) (images s2)" by simp
      show ?thesis
      proof (cases r2)
        case (Inl e)
        with r f Inr b False p have "s' = s2" by (simp add: drainBatch_def)
        with post show ?thesis by simp
      next
        case cnt: (Inr counts)
        obtain r3 s3 where c: "countDocuments w stillNeedsEmbedding s2 = (r3, s3)"
          by (cases "countDocuments w stillNeedsEmbedding s2") auto
        with r f Inr b False p cnt have "s' = s3"
          by (auto simp: drainBatch_def split: sum.splits)
        with post count_images [OF c q] show ?thesis by simp
      qed
    qed
  qed
qed

lemma pass_untouched:
  assumes q: "quiet w"
  shows "list_all2 (untouchedOutside (map image_id (firstEligible (wallClock w (clock s)) (images s))))
           (images s) (images (processPendingEmbeddings w s))"
proof (cases "isProcessing s \<or> \<not> isAIModelReady s")
  case True
  then show ?thesis by (auto simp: processPendingEmbeddings_def untouched_same)
next
  case False
  obtain r1 s1 where dr: "drainBatch w (s\<lparr>isProcessing := True\<rparr>) = (r1, s1)"
    by (cases "drainBatch w (s\<lparr>isProcessing := True\<rparr>)") auto
  from False dr have res: "processPendingEmbeddings w s = s1\<lparr>isProcessing := False\<rparr>"
    by (simp add: processPendingEmbeddings_def)
  from drain_untouched [OF dr q] res show ?thesis by simp
qed

section \<open>Selection of the batch\<close>

text \<open>
  C3 as stated fails: a failed record whose last attempt lies exactly
  \<open>RETRY_DELAY\<close> in the past is eligible in the words of the specification, and the
  query of the pipeline does not select it.
\<close>

theorem backoff_boundary_not_selected:
  "eligible_claimed 160000 (sampleImage 1 ''q1'' Failed 1 (Some 100000)) \<and>
   fst (Image_find_limit calmWorld (needsEmbedding (wallClock calmWorld 0)) 10
          (serverWith [sampleImage 1 ''q1'' Failed 1 (Some 100000)])) = Inr []"
  by (simp add: eligible_claimed_def sampleImage_def Image_find_limit_def calmWorld_def
      serverWith_def needsEmbedding_def MAX_EMBEDDING_ATTEMPTS_def RETRY_DELAY_def)

text \<open>
  C3, amended. The query of the pipeline is the eligibility predicate with a strict
  comparison: pending, or failed with fewer than 5 attempts and a last attempt that is
  absent or strictly more than 60 s in the past. With the record store answering, the
  query returns the first 10 eligible records in the order of the store, all of them
  when at most 10 exist. A pass (\<^verbatim>\<open>drainBatch\<close>, and \<^verbatim>\<open>processPendingEmbeddings\<close>
  when the guard is clear and the model ready) over a store with distinct ids, the
  record store answering and no other task interleaved, attempts exactly these
  records: each of them ends completed or failed with one more attempt and a last
  attempt set, and every other record is left as it was. Whatever the record store,
  the model and the index answer, a pass changes no record whose id is not the id of
  a record of this batch. A failed record whose last attempt is exactly
  \<open>RETRY_DELAY\<close> ago, or \<open>RETRY_DELAY - 1\<close> ms ago, is not selected; one at
  \<open>RETRY_DELAY + 1\<close> ms ago with fewer than 5 attempts is eligible; a failed record
  with 5 or more attempts is never selected.
\<close>

theorem selection_follows_strict_backoff:
  "(needsEmbedding now i \<longleftrightarrow> eligible_strict now i) \<and>
   (dbFault w (clock s) = None \<longrightarrow>
      fst (Image_find_limit w (needsEmbedding now) 10 s) = Inr (firstEligible now (images s))) \<and>
   (quiet w \<and> (\<forall>k. dbFault w k = None) \<and> distinct (map image_id (images s)) \<longrightarrow>
      list_all2 (attemptedIn (map image_id (firstEligible (wallClock w (clock s)) (images s))))
        (images s) (images (snd (drainBatch w s))) \<and>
      (\<not> isProcessing s \<and> isAIModelReady s \<longrightarrow>
         list_all2 (attemptedIn (map image_id (firstEligible (wallClock w (clock s)) (images s))))
           (images s) (images (processPendingEmbeddings w s)))) \<and>
   (quiet w \<longrightarrow>
      list_all2 (untouchedOutside (map image_id (firstEligible (wallClock w (clock s)) (images s))))
        (images s) (images (snd (drainBatch w s))) \<and>
      list_all2 (untouchedOutside (map image_id (firstEligible (wallClock w (clock s)) (images s))))
        (images s) (images (processPendingEmbeddings w s))) \<and>
   firstEligible now db = take 10 (filter (eligible_strict now) db) \<and>
   set (firstEligible now db) \<subseteq> {i \<in> set db. eligible_strict now i} \<and>
   (length (filter (eligible_strict now) db) \<le> 10 \<longrightarrow>
      firstEligible now db = filter (eligible_strict now) db) \<and>
   (embeddingStatus i = Failed \<and> lastEmbeddingAttempt i = Some (now - RETRY_DELAY) \<longrightarrow>
      \<not> needsEmbedding now i \<and> i \<notin> set (firstEligible now db)) \<and>
   (embeddingStatus i = Failed \<and> lastEmbeddingAttempt i = Some (now - (RETRY_DELAY - 1)) \<longrightarrow>
      \<not> needsEmbedding now i \<and> i \<notin> set (firstEligible now db)) \<and>
   (embeddingStatus i = Failed \<and> embeddingAttempts i < MAX_EMBEDDING_ATTEMPTS \<and>
    lastEmbeddingAttempt i = Some (now - (RETRY_DELAY + 1)) \<longrightarrow> needsEmbedding now i) \<and>
   (embeddingStatus i = Failed \<and> embeddingAttempts i \<ge> MAX_EMBEDDING_ATTEMPTS \<longrightarrow>
      \<not> needsEmbedding now i \<and> i \<notin> set (firstEligible now db))"
proof -
  have e: "needsEmbedding now i \<longleftrightarrow> eligible_strict now i"
    by (simp add: needsEmbedding_is_strict)
  have f: "dbFault w (clock s) = None \<longrightarrow>
      fst (Image_find_limit w (needsEmbedding now) 10 s) = Inr (firstEligible now (images s))"
    by (simp add: Image_find_limit_def firstEligible_def needsEmbedding_is_strict)
  have p: "quiet w \<and> (\<forall>k. dbFault w k = None) \<and> distinct (map image_id (images s)) \<longrightarrow>
      list_all2 (attemptedIn (map image_id (firstEligible (wallClock w (clock s)) (images s))))
        (images s) (images (snd (drainBatch w s))) \<and>
      (\<not> isProcessing s \<and> isAIModelReady s \<longrightarrow>
         list_all2 (attemptedIn (map image_id (firstEligible (wallClock w (clock s)) (images s))))
           (images s) (images (processPendingEmbeddings w s)))"
    using drain_attempts [of w s "fst (drainBatch w s)" "snd (drainBatch w s)"]
      pass_attempts [of w s] by simp
  have u: "quiet w \<longrightarrow>
      list_all2 (untouchedOutside (map image_id (firstEligible (wallClock w (clock s)) (images s))))
        (images s) (images (snd (drainBatch w s))) \<and>
      list_all2 (untouchedOutside (map image_id (firstEligible (wallClock w (clock s)) (images s))))
        (images s) (images (processPendingEmbeddings w s))"
    using drain_untouched [of w s "fst (drainBatch w s)" "snd (drainBatch w s)"]
      pass_untouched [of w s] by simp
  have t: "firstEligible now db = take 10 (filter (eligible_strict now) db)"
    by (simp add: firstEligible_def)
  have sub: "set (firstEligible now db) \<subseteq> {i \<in> set db. eligible_strict now i}"
    by (rule firstEligible_subset)
  have all: "length (filter (eligible_strict now) db) \<le> 10 \<longrightarrow>
      firstEligible now db = filter (eligible_strict now) db"
    by (simp add: firstEligible_all)
  have n1: "embeddingStatus i = Failed \<and> lastEmbeddingAttempt i = Some (now - RETRY_DELAY) \<longrightarrow>
      \<not> needsEmbedding now i \<and> i \<notin> set (firstEligible now db)"
    using sub by (auto simp: needsEmbedding_is_strict eligible_strict_def RETRY_DELAY_def)
  have n2: "embeddingStatus i = Failed \<and> lastEmbeddingAttempt i = Some (now - (RETRY_DELAY - 1)) \<longrightarrow>
      \<not> needsEmbedding now i \<and> i \<notin> set (firstEligible now db)"
    using sub by (auto simp: needsEmbedding_is_strict eligible_strict_def RETRY_DELAY_def)
  have p1: "embeddingStatus i = Failed \<and> embeddingAttempts i < MAX_EMBEDDING_ATTEMPTS \<and>
    lastEmbeddingAttempt i = Some (now - (RETRY_DELAY + 1)) \<longrightarrow> needsEmbedding now i"
    by (simp add: needsEmbedding_def RETRY_DELAY_def)
  have n3: "embeddingStatus i = Failed \<and> embeddingAttempts i \<ge> MAX_EMBEDDING_ATTEMPTS \<longrightarrow>
      \<not> needsEmbedding now i \<and> i \<notin> set (firstEligible now db)"
    using sub by (auto simp: needsEmbedding_is_strict eligible_strict_def MAX_EMBEDDING_ATTEMPTS_def)
  from e f p u t sub all n1 n2 p1 n3 show ?thesis by (intro conjI)
qed

theorem selection_follows_strict_backoff_witness:
  "quiet calmWorld \<and> (\<forall>k. dbFault calmWorld k = None) \<and>
   distinct (map image_id (images (serverWith backoffStore))) \<and>
   \<not> isProcessing (serverWith backoffStore) \<and> isAIModelReady (serverWith backoffStore) \<and>
   firstEligible (wallClock calmWorld (clock (serverWith backoffStore)))
     (images (serverWith backoffStore))
     = [sampleImage 1 ''q1'' Pending 0 None, sampleImage 3 ''q3'' Failed 1 (Some 99999)] \<and>
   list_all2 (attemptedIn [1, 3]) (images (serverWith backoffStore))
     (images (processPendingEmbeddings calmWorld (serverWith backoffStore)))"
proof -
  let ?s = "serverWith backoffStore"
  have q: "quiet calmWorld" by (simp add: quiet_def calmWorld_def)
  have nf: "\<forall>k. dbFault calmWorld k = None" by (simp add: calmWorld_def)
  have d: "distinct (map image_id (images ?s))"
    by (simp add: serverWith_def backoffStore_def sampleImage_def)
  have g: "\<not> isProcessing ?s" by (simp add: serverWith_def)
  have m: "isAIModelReady ?s" by (simp add: isAIModelReady_def serverWith_def)
  have b: "firstEligible (wallClock calmWorld (clock ?s)) (images ?s)
     = [sampleImage 1 ''q1'' Pending 0 None, sampleImage 3 ''q3'' Failed 1 (Some 99999)]"
    by (simp add: firstEligible_def eligible_strict_def serverWith_def backoffStore_def
        sampleImage_def calmWorld_def)
  from selection_follows_strict_backoff [of _ _ calmWorld ?s] q nf d g m
  have "list_all2 (attemptedIn (map image_id
           (firstEligible (wallClock calmWorld (clock ?s)) (images ?s))))
           (images ?s) (images (processPendingEmbeddings calmWorld ?s))"
    by blast
  then have "list_all2 (attemptedIn [1, 3]) (images ?s)
     (images (processPendingEmbeddings calmWorld ?s))"
    unfolding b by (simp add: sampleImage_def)
  with q nf d g m b show ?thesis by blast
qed

section \<open>Statistics\<close>

lemma stats_result:
  "getEmbeddingStats w u s = (Inr st, s') \<Longrightarrow> st = statsOf w u (images s)"
  by (auto simp: getEmbeddingStats_def split: option.splits)

lemma stats_partition:
  "\<forall>i\<in>set db. embeddedIffCompleted i \<Longrightarrow>
   stats_embedded (statsOf w u db) + stats_pending (statsOf w u db) +
   stats_processing (statsOf w u db) + stats_failed (statsOf w u db) +
   length (filter (\<lambda>i. inScope u i \<and> terminallyFailed i) db) = stats_total (statsOf w u db)"
proof (induction db)
  case Nil
  then show ?case by (simp add: statsOf_def)
next
  case (Cons a db)
  then have ih: "stats_embedded (statsOf w u db) + stats_pending (statsOf w u db) +
   stats_processing (statsOf w u db) + stats_failed (statsOf w u db) +
   length (filter (\<lambda>i. inScope u i \<and> terminallyFailed i) db) = stats_total (statsOf w u db)"
    by simp
  from Cons.prems have a: "embeddedIffCompleted a" by simp
  show ?case
    using ih a
    by (cases "embeddingStatus a")
       (simp_all add: statsOf_def embeddedIffCompleted_def terminallyFailed_def
          MAX_EMBEDDING_ATTEMPTS_def Let_def not_less)
qed

lemma terminal_positive:
  "r \<in> set db \<Longrightarrow> inScope u r \<Longrightarrow> terminallyFailed r \<Longrightarrow>
   0 < length (filter (\<lambda>i. inScope u i \<and> terminallyFailed i) db)"
  by (induction db) auto

lemma stats_append_terminal:
  "inScope u r \<Longrightarrow> terminallyFailed r \<Longrightarrow> \<not> isEmbedded r \<Longrightarrow>
   stats_total (statsOf w' u (db @ [r])) = stats_total (statsOf w u db) + 1 \<and>
   stats_embedded (statsOf w' u (db @ [r])) = stats_embedded (statsOf w u db) \<and>
   stats_pending (statsOf w' u (db @ [r])) = stats_pending (statsOf w u db) \<and>
   stats_processing (statsOf w' u (db @ [r])) = stats_processing (statsOf w u db) \<and>
   stats_failed (statsOf w' u (db @ [r])) = stats_failed (statsOf w u db)"
  by (simp add: statsOf_def terminallyFailed_def MAX_EMBEDDING_ATTEMPTS_def Let_def)

text \<open>
  C10: the failed count of \<^verbatim>\<open>getEmbeddingStats\<close> holds only the failed records with
  fewer than 5 attempts. A terminally failed record that is not embedded adds one to
  the total and nothing to embedded, pending, processing or failed; so when the
  records satisfy the invariant of the data model and one of them in scope is
  terminally failed, the four counts add up to strictly less than the total.
\<close>

theorem failed_count_excludes_terminal:
  "getEmbeddingStats w u s = (Inr st, s1) \<longrightarrow>
     stats_failed st =
       length (filter (\<lambda>i. inScope u i \<and> embeddingStatus i = Failed \<and> embeddingAttempts i < 5)
                 (images s)) \<and>
     (\<forall>r st' s2. getEmbeddingStats w' u (s\<lparr>images := images s @ [r]\<rparr>) = (Inr st', s2) \<and>
         inScope u r \<and> terminallyFailed r \<and> \<not> isEmbedded r \<longrightarrow>
           stats_total st' = stats_total st + 1 \<and> stats_embedded st' = stats_embedded st \<and>
           stats_pending st' = stats_pending st \<and> stats_processing st' = stats_processing st \<and>
           stats_failed st' = stats_failed st) \<and>
     ((\<forall>i\<in>set (images s). embeddedIffCompleted i) \<and>
      (\<exists>r\<in>set (images s). inScope u r \<and> terminallyFailed r) \<longrightarrow>
        stats_embedded st + stats_pending st + stats_processing st + stats_failed st
          < stats_total st)"
proof
  assume a: "getEmbeddingStats w u s = (Inr st, s1)"
  have st: "st = statsOf w u (images s)" by (rule stats_result [OF a])
  have c1: "stats_failed st =
       length (filter (\<lambda>i. inScope u i \<and> embeddingStatus i = Failed \<and> embeddingAttempts i < 5)
                 (images s))"
    by (simp add: st statsOf_def MAX_EMBEDDING_ATTEMPTS_def Let_def)
  have c2: "\<forall>r st' s2. getEmbeddingStats w' u (s\<lparr>images := images s @ [r]\<rparr>) = (Inr st', s2) \<and>
         inScope u r \<and> terminallyFailed r \<and> \<not> isEmbedded r \<longrightarrow>
           stats_total st' = stats_total st + 1 \<and> stats_embedded st' = stats_embedded st \<and>
           stats_pending st' = stats_pending st \<and> stats_processing st' = stats_processing st \<and>
           stats_failed st' = stats_failed st"
  proof (intro allI impI)
    fix r st' s2
    assume h: "getEmbeddingStats w' u (s\<lparr>images := images s @ [r]\<rparr>) = (Inr st', s2) \<and>
         inScope u r \<and> terminallyFailed r \<and> \<not> isEmbedded r"
    then have "st' = statsOf w' u (images s @ [r])"
      using stats_result [of w' u "s\<lparr>images := images s @ [r]\<rparr>" st' s2] by simp
    then show "stats_total st' = stats_total st + 1 \<and> stats_embedded st' = stats_embedded st \<and>
           stats_pending st' = stats_pending st \<and> stats_processing st' = stats_processing st \<and>
           stats_failed st' = stats_failed st"
      using stats_append_terminal [where u = u and r = r and w' = w' and db = "images s" and w = w]
        h st by simp
  qed
  have c3: "(\<forall>i\<in>set (images s). embeddedIffCompleted i) \<and>
      (\<exists>r\<in>set (images s). inScope u r \<and> terminallyFailed r) \<longrightarrow>
        stats_embedded st + stats_pending st + stats_processing st + stats_failed st
          < stats_total st"
  proof
    assume h: "(\<forall>i\<in>set (images s). embeddedIffCompleted i) \<and>
      (\<exists>r\<in>set (images s). inScope u r \<and> terminallyFailed r)"
    then obtain r where r: "r \<in> set (images s)" "inScope u r" "terminallyFailed r" by blast
    have p: "0 < length (filter (\<lambda>i. inScope u i \<and> terminallyFailed i) (images s))"
      by (rule terminal_positive [OF r])
    from h have "\<forall>i\<in>set (images s). embeddedIffCompleted i" by blast
    from stats_partition [OF this, where u = u and w = w] p
    show "stats_embedded st + stats_pending st + stats_processing st + stats_failed st
          < stats_total st"
      unfolding st by linarith
  qed
  from c1 c2 c3 show "stats_failed st =
       length (filter (\<lambda>i. inScope u i \<and> embeddingStatus i = Failed \<and> embeddingAttempts i < 5)
                 (images s)) \<and>
     (\<forall>r st' s2. getEmbeddingStats w' u (s\<lparr>images := images s @ [r]\<rparr>) = (Inr st', s2) \<and>
         inScope u r \<and> terminallyFailed r \<and> \<not> isEmbedded r \<longrightarrow>
           stats_total st' = stats_total st + 1 \<and> stats_embedded st' = stats_embedded st \<and>
           stats_pending st' = stats_pending st \<and> stats_processing st' = stats_processing st \<and>
           stats_failed st' = stats_failed st) \<and>
     ((\<forall>i\<in>set (images s). embeddedIffCompleted i) \<and>
      (\<exists>r\<in>set (images s). inScope u r \<and> terminallyFailed r) \<longrightarrow>
        stats_embedded st + stats_pending st + stats_processing st + stats_failed st
          < stats_total st)"
    by blast
qed

theorem failed_count_excludes_terminal_witness:
  "getEmbeddingStats calmWorld None
     (serverWith [sampleImage 1 ''q1'' Completed 1 (Some 5), sampleImage 2 ''q2'' Failed 5 (Some 9)])
   = (Inr \<lparr>stats_total = 2, stats_embedded = 1, stats_pending = 0, stats_processing = 0,
           stats_failed = 0, stats_percentage = 50\<rparr>,
      (serverWith [sampleImage 1 ''q1'' Completed 1 (Some 5),
                   sampleImage 2 ''q2'' Failed 5 (Some 9)])\<lparr>clock := 1\<rparr>) \<and>
   list_all embeddedIffCompleted
     [sampleImage 1 ''q1'' Completed 1 (Some 5), sampleImage 2 ''q2'' Failed 5 (Some 9)] \<and>
   terminallyFailed (sampleImage 2 ''q2'' Failed 5 (Some 9)) \<and>
   (1::nat) + 0 + 0 + 0 < 2"
proof -
  let ?db = "[sampleImage 1 ''q1'' Completed 1 (Some 5), sampleImage 2 ''q2'' Failed 5 (Some 9)]"
  let ?st = "\<lparr>stats_total = 2, stats_embedded = 1, stats_pending = 0, stats_processing = 0,
           stats_failed = 0, stats_percentage = 50\<rparr>"
  have h: "getEmbeddingStats calmWorld None (serverWith ?db)
             = (Inr ?st, (serverWith ?db)\<lparr>clock := 1\<rparr>)"
    by (simp add: getEmbeddingStats_def statsOf_def inScope_def calmWorld_def serverWith_def
        sampleImage_def await_def MAX_EMBEDDING_ATTEMPTS_def)
  have inv: "\<forall>i\<in>set (images (serverWith ?db)). embeddedIffCompleted i"
    by (simp add: serverWith_def sampleImage_def embeddedIffCompleted_def)
  have t: "terminallyFailed (sampleImage 2 ''q2'' Failed 5 (Some 9))"
    by (simp add: sampleImage_def terminallyFailed_def)
  have ex: "\<exists>r\<in>set (images (serverWith ?db)). inScope None r \<and> terminallyFailed r"
    using t by (simp add: serverWith_def inScope_def)
  have "stats_embedded ?st + stats_pending ?st + stats_processing ?st + stats_failed ?st
          < stats_total ?st"
    using failed_count_excludes_terminal
            [of calmWorld None "serverWith ?db" ?st "(serverWith ?db)\<lparr>clock := 1\<rparr>"] h inv ex
    by blast
  then have "(1::nat) + 0 + 0 + 0 < 2" by simp
  with h inv t show ?thesis by (simp add: serverWith_def list_all_iff)
qed

section \<open>Single flight\<close>

text \<open>
  C6: a call of \<^verbatim>\<open>processPendingEmbeddings\<close> that finds the guard set returns at
  once and leaves the whole state as it was: no batch is selected, no record updated,
  no call made. A call that finds the guard clear leaves it clear when it finishes,
  whatever the stores, the model and the index do. While a pass runs the guard is set
  at every \<^verbatim>\<open>await\<close>, so further calls triggered at any of them change nothing: the
  pass with such triggers ends in the state of the pass alone.
\<close>

theorem single_flight:
  "(isProcessing s \<longrightarrow> processPendingEmbeddings w s = s) \<and>
   (\<not> isProcessing s \<longrightarrow> \<not> isProcessing (processPendingEmbeddings w s)) \<and>
   (guardedIdle w \<longrightarrow> processPendingEmbeddings w s = processPendingEmbeddings (calmed w) s) \<and>
   processPendingEmbeddings (withTriggers K w) s = processPendingEmbeddings (calmed w) s"
  using pass_skips [of s w] pass_clears [of s w] pass_guarded [of w s]
    pass_guarded [OF triggers_guardedIdle, of K w s]
  by (simp add: calmed_withTriggers)

theorem single_flight_witness:
  "isProcessing ((serverWith [sampleImage 1 ''q1'' Pending 0 None])\<lparr>isProcessing := True\<rparr>) \<and>
   processPendingEmbeddings calmWorld
       ((serverWith [sampleImage 1 ''q1'' Pending 0 None])\<lparr>isProcessing := True\<rparr>)
     = (serverWith [sampleImage 1 ''q1'' Pending 0 None])\<lparr>isProcessing := True\<rparr> \<and>
   \<not> isProcessing (serverWith [sampleImage 1 ''q1'' Pending 0 None]) \<and>
   \<not> isProcessing (processPendingEmbeddings (calmWorld\<lparr>dbFault := (\<lambda>k. Some (Error ''down'' None))\<rparr>)
         (serverWith [sampleImage 1 ''q1'' Pending 0 None])) \<and>
   guardedIdle (withTriggers (\<lambda>k. True) calmWorld) \<and>
   images (processPendingEmbeddings (withTriggers (\<lambda>k. True) calmWorld)
             (serverWith [sampleImage 1 ''q1'' Pending 0 None]))
     = [sampleImage 1 ''q1'' Completed 1 (Some 160000)]"
proof -
  let ?s = "serverWith [sampleImage 1 ''q1'' Pending 0 None]"
  let ?down = "calmWorld\<lparr>dbFault := (\<lambda>k. Some (Error ''down'' None))\<rparr>"
  have busy: "isProcessing (?s\<lparr>isProcessing := True\<rparr>)" by simp
  have idle: "\<not> isProcessing ?s" by (simp add: serverWith_def)
  have g: "guardedIdle (withTriggers (\<lambda>k. True) calmWorld)" by (rule triggers_guardedIdle)
  have run: "images (processPendingEmbeddings (calmed calmWorld) ?s)
               = [sampleImage 1 ''q1'' Completed 1 (Some 160000)]"
    by (simp add: processPendingEmbeddings_def drainBatch_def Image_find_limit_def
      processImageEmbedding_def embedAndStore_def storeInQdrant_def
      checkQdrantHealth_def qdrant_upsert_def generateImageEmbedding_def isQdrantConnected_def
      findByIdAndUpdate_def countDocuments_def await_def calmed_def calmWorld_def serverWith_def
      sampleImage_def isAIModelReady_def needsEmbedding_def markProcessing_def markCompleted_def
      markFailed_def MAX_EMBEDDING_ATTEMPTS_def RETRY_DELAY_def Let_def)
  from single_flight [of "?s\<lparr>isProcessing := True\<rparr>" calmWorld "\<lambda>k. True"] busy
  have a: "processPendingEmbeddings calmWorld (?s\<lparr>isProcessing := True\<rparr>)
             = ?s\<lparr>isProcessing := True\<rparr>" by blast
  from single_flight [of ?s ?down "\<lambda>k. True"] idle
  have b: "\<not> isProcessing (processPendingEmbeddings ?down ?s)" by blast
  from single_flight [of ?s calmWorld "\<lambda>k. True"]
  have "processPendingEmbeddings (withTriggers (\<lambda>k. True) calmWorld) ?s
          = processPendingEmbeddings (calmed calmWorld) ?s" by blast
  with run have c: "images (processPendingEmbeddings (withTriggers (\<lambda>k. True) calmWorld) ?s)
     = [sampleImage 1 ''q1'' Completed 1 (Some 160000)]" by simp
  from busy a idle b g c show ?thesis by blast
qed

section \<open>Embedded if and only if completed\<close>

text \<open>
  C1: in a store whose ids are distinct and whose records all satisfy
  \<open>isEmbedded = true\<close> if and only if \<open>embeddingStatus = completed\<close>, the records
  satisfy it again after a pass of \<^verbatim>\<open>processPendingEmbeddings\<close> (which keeps the ids),
  after \<^verbatim>\<open>uploadMultipleImages\<close> and after \<^verbatim>\<open>uploadImage\<close>, whatever the stores, the
  model and the index answer. The update of the success path sets the flag and the
  status together; the update of the failure path sets the status to failed and leaves
  the flag as it was.
\<close>

theorem embedded_iff_completed_preserved:
  "quiet w \<and> (\<forall>x\<in>set (images s). embeddedIffCompleted x) \<and>
   distinct (map image_id (images s)) \<longrightarrow>
     (\<forall>x\<in>set (images (processPendingEmbeddings w s)). embeddedIffCompleted x) \<and>
     distinct (map image_id (images (processPendingEmbeddings w s))) \<and>
     (\<forall>x\<in>set (images (snd (uploadMultipleImages w req s))). embeddedIffCompleted x) \<and>
     (\<forall>x\<in>set (images (snd (uploadImage w req1 s))). embeddedIffCompleted x) \<and>
     (isEmbedded (markCompleted i) \<and> embeddingStatus (markCompleted i) = Completed) \<and>
     (embeddingStatus (markFailed m i) = Failed \<and> embeddingError (markFailed m i) = Some m \<and>
      isEmbedded (markFailed m i) = isEmbedded i)"
proof
  assume h: "quiet w \<and> (\<forall>x\<in>set (images s). embeddedIffCompleted x) \<and>
             distinct (map image_id (images s))"
  then have q: "quiet w" and inv: "\<forall>x\<in>set (images s). embeddedIffCompleted x"
    and d: "distinct (map image_id (images s))" by auto
  note p = pass_preserves [OF q inv d]
  from uploadMultipleImages_effect [OF q, of req s] obtain docs where
    m: "images (snd (uploadMultipleImages w req s)) = images s @ docs"
       "\<forall>d\<in>set docs. completedForm d \<or> pendingForm d" by blast
  from m inv have um: "\<forall>x\<in>set (images (snd (uploadMultipleImages w req s))). embeddedIffCompleted x"
    by (auto intro: forms_invariant)
  from uploadImage_effect [OF q, of req1 s] inv
  have u1: "\<forall>x\<in>set (images (snd (uploadImage w req1 s))). embeddedIffCompleted x"
    by (auto intro: forms_invariant)
  from p um u1
  show "(\<forall>x\<in>set (images (processPendingEmbeddings w s)). embeddedIffCompleted x) \<and>
     distinct (map image_id (images (processPendingEmbeddings w s))) \<and>
     (\<forall>x\<in>set (images (snd (uploadMultipleImages w req s))). embeddedIffCompleted x) \<and>
     (\<forall>x\<in>set (images (snd (uploadImage w req1 s))). embeddedIffCompleted x) \<and>
     (isEmbedded (markCompleted i) \<and> embeddingStatus (markCompleted i) = Completed) \<and>
     (embeddingStatus (markFailed m i) = Failed \<and> embeddingError (markFailed m i) = Some m \<and>
      isEmbedded (markFailed m i) = isEmbedded i)"
    by (simp add: markCompleted_fields markFailed_fields)
qed

theorem embedded_iff_completed_preserved_witness:
  "quiet calmWorld \<and>
   list_all embeddedIffCompleted
     (images (serverWith [sampleImage 1 ''q1'' Pending 0 None,
                          sampleImage 2 ''q2'' Completed 1 (Some 5)])) \<and>
   distinct (map image_id (images (serverWith [sampleImage 1 ''q1'' Pending 0 None,
                                               sampleImage 2 ''q2'' Completed 1 (Some 5)]))) \<and>
   list_all embeddedIffCompleted
     (images (processPendingEmbeddings calmWorld
                (serverWith [sampleImage 1 ''q1'' Pending 0 None,
                             sampleImage 2 ''q2'' Completed 1 (Some 5)]))) \<and>
   list_all embeddedIffCompleted
     (images (snd (uploadMultipleImages calmWorld
                     \<lparr>up_user = 7, up_files = [\<lparr>file_originalname = utf16 ''cat.jpg''\<rparr>]\<rparr>
                     (serverWith [sampleImage 1 ''q1'' Pending 0 None,
                                  sampleImage 2 ''q2'' Completed 1 (Some 5)])))) \<and>
   list_all embeddedIffCompleted
     (images (snd (uploadImage calmWorld
                     \<lparr>one_user = 7, one_file = Some \<lparr>file_originalname = utf16 ''cat.jpg''\<rparr>,
                      one_title = None\<rparr>
                     (serverWith [sampleImage 1 ''q1'' Pending 0 None,
                                  sampleImage 2 ''q2'' Completed 1 (Some 5)]))))"
proof -
  let ?s = "serverWith [sampleImage 1 ''q1'' Pending 0 None,
                        sampleImage 2 ''q2'' Completed 1 (Some 5)]"
  let ?req = "\<lparr>up_user = 7, up_files = [\<lparr>file_originalname = utf16 ''cat.jpg''\<rparr>]\<rparr>"
  let ?req1 = "\<lparr>one_user = 7, one_file = Some \<lparr>file_originalname = utf16 ''cat.jpg''\<rparr>,
                one_title = None\<rparr>"
  have q: "quiet calmWorld" by (simp add: quiet_def calmWorld_def)
  have inv: "\<forall>x\<in>set (images ?s). embeddedIffCompleted x"
    by (simp add: serverWith_def sampleImage_def embeddedIffCompleted_def)
  have d: "distinct (map image_id (images ?s))"
    by (simp add: serverWith_def sampleImage_def)
  from embedded_iff_completed_preserved [of calmWorld ?s ?req ?req1] q inv d
  have "(\<forall>x\<in>set (images (processPendingEmbeddings calmWorld ?s)). embeddedIffCompleted x) \<and>
        (\<forall>x\<in>set (images (snd (uploadMultipleImages calmWorld ?req ?s))). embeddedIffCompleted x) \<and>
        (\<forall>x\<in>set (images (snd (uploadImage calmWorld ?req1 ?s))). embeddedIffCompleted x)"
    by blast
  with q inv d show ?thesis unfolding list_all_iff by blast
qed

section \<open>Completion without an index write\<close>

text \<open>
  C2 at the failing input: the index is not connected, the record is pending and the
  model answers. \<^verbatim>\<open>processImageEmbedding\<close> skips the upsert, resolves to true and leaves
  the record completed and embedded, with no point stored under its \<open>qdrantId\<close>.
\<close>

theorem completed_without_index_write:
  "processImageEmbedding calmWorld (sampleImage 1 ''q1'' Pending 0 None)
     ((serverWith [sampleImage 1 ''q1'' Pending 0 None])\<lparr>isQdrantAvailable := False\<rparr>)
   = (Inr True,
      (serverWith [sampleImage 1 ''q1'' Completed 1 (Some 160000)])
        \<lparr>isQdrantAvailable := False, clock := 3\<rparr>) \<and>
   qpoints ((serverWith [sampleImage 1 ''q1'' Completed 1 (Some 160000)])
              \<lparr>isQdrantAvailable := False, clock := 3\<rparr>) = []"
  by (simp add: processImageEmbedding_def embedAndStore_def storeInQdrant_def
      generateImageEmbedding_def isQdrantConnected_def findByIdAndUpdate_def await_def
      calmWorld_def serverWith_def sampleImage_def markProcessing_def markCompleted_def)

section \<open>Upload and embedding\<close>

text \<open>
  C4 at the failing inputs. With the model not ready, \<^verbatim>\<open>uploadImage\<close> answers 503 and
  creates no record, where \<^verbatim>\<open>uploadMultipleImages\<close>, given the same file in the same
  state, answers 201 and creates the record pending. With the model ready and the index
  accepting the vector, \<^verbatim>\<open>uploadImage\<close> answers 201 and creates the record pending,
  not completed, although the point is in the index under the \<open>qdrantId\<close> of the record.
\<close>

theorem single_upload_refused_without_model:
  "uploadImage calmWorld
     \<lparr>one_user = 7, one_file = Some \<lparr>file_originalname = utf16 ''cat.jpg''\<rparr>, one_title = None\<rparr>
     ((serverWith [])\<lparr>isAIModelAvailable := False\<rparr>)
   = (reply 503 False
        (Some ''AI model is currently unavailable. Image uploads are temporarily disabled.''),
      (serverWith [])\<lparr>isAIModelAvailable := False\<rparr>) \<and>
   images ((serverWith [])\<lparr>isAIModelAvailable := False\<rparr>) = [] \<and>
   (\<exists>doc. fst (uploadMultipleImages calmWorld
                 \<lparr>up_user = 7, up_files = [\<lparr>file_originalname = utf16 ''cat.jpg''\<rparr>]\<rparr>
                 ((serverWith [])\<lparr>isAIModelAvailable := False\<rparr>)) =
             (reply 201 True None)\<lparr>res_images := Some [doc], res_uploadErrors := []\<rparr> \<and>
           pendingForm doc \<and>
           images (snd (uploadMultipleImages calmWorld
                 \<lparr>up_user = 7, up_files = [\<lparr>file_originalname = utf16 ''cat.jpg''\<rparr>]\<rparr>
                 ((serverWith [])\<lparr>isAIModelAvailable := False\<rparr>))) = [doc]) \<and>
   (\<exists>doc. fst (uploadImage calmWorld
                 \<lparr>one_user = 7, one_file = Some \<lparr>file_originalname = utf16 ''cat.jpg''\<rparr>,
                  one_title = None\<rparr> (serverWith [])) =
             (reply 201 True None)\<lparr>res_images := Some [doc]\<rparr> \<and>
           pendingForm doc \<and>
           images (snd (uploadImage calmWorld
                 \<lparr>one_user = 7, one_file = Some \<lparr>file_originalname = utf16 ''cat.jpg''\<rparr>,
                  one_title = None\<rparr> (serverWith []))) = [doc] \<and>
           qdrantId doc \<in> fst ` set (qpoints (snd (uploadImage calmWorld
                 \<lparr>one_user = 7, one_file = Some \<lparr>file_originalname = utf16 ''cat.jpg''\<rparr>,
                  one_title = None\<rparr> (serverWith [])))))"
  by (simp add: uploadImage_def uploadMultipleImages_def uploadOne_def uploadFile_def
      isMongoDBConnected_def isAIModelReady_def serverWith_def calmWorld_def nextUuid_def
      storage_saveFile_def getImageMetadata_def storeAtUpload_def embedAtUpload_def
      Image_create_def linkPayload_def isQdrantConnected_def checkQdrantHealth_def
      generateImageEmbedding_def qdrant_upsert_def qdrant_setPayload_def
      await_def Let_def pendingForm_def reply_def)

section \<open>Search while the AI path is unavailable\<close>

text \<open>
  C7 as stated fails: a query of one space is not empty, and with the index not
  connected the handler answers it 200 with the records of the metadata search, type
  \<open>all\<close>, as it does for an absent query; so it does for a query of one no-break
  space.
\<close>

theorem blank_query_browses_all:
  "queryOf (sunsetRequest\<lparr>sr_query := Some [0x20]\<rparr>) \<noteq> [] \<and>
   \<not> isQdrantConnected (indexedServer\<lparr>isQdrantAvailable := False\<rparr>) \<and>
   fst (searchImages calmWorld (sunsetRequest\<lparr>sr_query := Some [0x20]\<rparr>)
          (indexedServer\<lparr>isQdrantAvailable := False\<rparr>)) =
     (reply 200 True (Some ''Showing all images''))
       \<lparr>res_images := Some [sampleImage 1 ''q1'' Completed 1 (Some 5)],
        res_searchType := Some ''all''\<rparr> \<and>
   fst (searchImages calmWorld (sunsetRequest\<lparr>sr_query := Some [0xA0]\<rparr>)
          (indexedServer\<lparr>isQdrantAvailable := False\<rparr>)) =
     (reply 200 True (Some ''Showing all images''))
       \<lparr>res_images := Some [sampleImage 1 ''q1'' Completed 1 (Some 5)],
        res_searchType := Some ''all''\<rparr>"
  by (simp add: searchImages_def hasQuery_def queryOf_def sunsetRequest_def trim_def
      isWhitespace_def isQdrantConnected_def indexedServer_def serverWith_def Image_find_def
      calmWorld_def baseFilter_def sampleImage_def mongoLimit_def limitOf_def await_def)

text \<open>
  C7, amended: for a request whose query is present and not blank (not empty once
  \<^verbatim>\<open>String.prototype.trim\<close> has stripped white space and line terminators from both
  ends), when the index is not connected and healthy at the health check or the model
  is not ready, the response carries no images and is never of type \<open>all\<close>, and the
  records are untouched; with the record store answering the count, the response is
  exactly the 503 of type \<open>unavailable\<close>.
\<close>

theorem unavailable_is_distinct:
  "quiet w \<and> hasQuery req \<and>
   \<not> (indexHealthyAt w (s\<lparr>clock := Suc (clock s)\<rparr>) \<and> isAIModelReady s) \<longrightarrow>
     res_images (fst (searchImages w req s)) = None \<and>
     res_searchType (fst (searchImages w req s)) \<noteq> Some ''all'' \<and>
     images (snd (searchImages w req s)) = images s \<and>
     (dbFault w (clock s) = None \<longrightarrow>
        fst (searchImages w req s) = unavailableResponse \<and>
        res_status (fst (searchImages w req s)) = 503 \<and>
        res_searchType (fst (searchImages w req s)) = Some ''unavailable'')"
  by (rule searchImages_closed)

theorem unavailable_is_distinct_witness:
  "quiet calmWorld \<and> hasQuery sunsetRequest \<and>
   \<not> indexHealthyAt calmWorld
       (indexedServer\<lparr>isQdrantAvailable := False,
                      clock := Suc (clock (indexedServer\<lparr>isQdrantAvailable := False\<rparr>))\<rparr>) \<and>
   dbFault calmWorld (clock (indexedServer\<lparr>isQdrantAvailable := False\<rparr>)) = None \<and>
   fst (searchImages calmWorld sunsetRequest (indexedServer\<lparr>isQdrantAvailable := False\<rparr>))
     = unavailableResponse \<and>
   res_images (fst (searchImages calmWorld sunsetRequest
                      (indexedServer\<lparr>isQdrantAvailable := False\<rparr>))) = None"
proof -
  let ?s = "indexedServer\<lparr>isQdrantAvailable := False\<rparr>"
  have q: "quiet calmWorld" by (simp add: quiet_def calmWorld_def)
  have hq: "hasQuery sunsetRequest"
    by (simp add: hasQuery_def queryOf_def sunsetRequest_def trim_def isWhitespace_def utf16_def)
  have ni: "\<not> indexHealthyAt calmWorld (?s\<lparr>clock := Suc (clock ?s)\<rparr>)"
    by (simp add: indexHealthyAt_def isQdrantConnected_def)
  have db: "dbFault calmWorld (clock ?s) = None" by (simp add: calmWorld_def)
  from unavailable_is_distinct [of calmWorld sunsetRequest ?s] q hq ni db
  have "fst (searchImages calmWorld sunsetRequest ?s) = unavailableResponse \<and>
        res_images (fst (searchImages calmWorld sunsetRequest ?s)) = None"
    by blast
  with q hq ni db show ?thesis by (simp add: unavailableResponse_def reply_def)
qed

section \<open>Failures of the AI path\<close>

text \<open>
  C8: for a request with a query that entered the AI path (record store answering the
  count, index connected and healthy, model ready): an empty embedding gives the 500
  answer of type \<open>ai\<close> with the message of the validation; a collection without points
  gives the 500 answer of type \<open>ai\<close> with its own message; and in either situation,
  whatever else fails first, the answer is a failure of type \<open>ai\<close> with status 400 or
  500 that carries no images.
\<close>

theorem ai_path_fails_loudly:
  "quiet w \<and> hasQuery req \<and> dbFault w (clock s) = None \<and>
   indexHealthyAt w (s\<lparr>clock := Suc (clock s)\<rparr>) \<and> isAIModelReady s \<longrightarrow>
     (embedText w (clock s + 2) (queryOf req) = Inr [] \<longrightarrow>
        fst (searchImages w req s) = aiFailure ''Invalid embedding generated'') \<and>
     ((\<exists>v. embedText w (clock s + 2) (queryOf req) = Inr v \<and> v \<noteq> []) \<and>
      qdrantFault w (clock s + 3) = None \<and> qpoints s = [] \<longrightarrow>
        fst (searchImages w req s) = aiFailure ''No embedded images available for AI search'') \<and>
     (embedText w (clock s + 2) (queryOf req) = Inr [] \<or> qpoints s = [] \<longrightarrow>
        \<not> res_success (fst (searchImages w req s)) \<and>
        res_searchType (fst (searchImages w req s)) = Some ''ai'' \<and>
        res_images (fst (searchImages w req s)) = None \<and>
        (res_status (fst (searchImages w req s)) = 400 \<or>
         res_status (fst (searchImages w req s)) = 500) \<and>
        images (snd (searchImages w req s)) = images s)"
proof
  assume h: "quiet w \<and> hasQuery req \<and> dbFault w (clock s) = None \<and>
   indexHealthyAt w (s\<lparr>clock := Suc (clock s)\<rparr>) \<and> isAIModelReady s"
  then have q: "quiet w" by simp
  from h searchImages_ai_path [of w req s] obtain n s2 where
    s2: "clock s2 = Suc (Suc (clock s))" "qpoints s2 = qpoints s" "qdrantClient s2"
    and res: "fst (searchImages w req s) =
             (case fst (aiSearch w req n s2) of Inr res \<Rightarrow> res | Inl e \<Rightarrow> aiSearchError e)"
    and im: "images (snd (searchImages w req s)) = images s"
    by blast
  have a: "embedText w (clock s + 2) (queryOf req) = Inr [] \<longrightarrow>
        fst (searchImages w req s) = aiFailure ''Invalid embedding generated''"
    using aiSearch_empty_embedding [OF q, of s2 req n] s2 res
    by (simp add: aiSearchError_plain)
  have b: "(\<exists>v. embedText w (clock s + 2) (queryOf req) = Inr v \<and> v \<noteq> []) \<and>
      qdrantFault w (clock s + 3) = None \<and> qpoints s = [] \<longrightarrow>
        fst (searchImages w req s) = aiFailure ''No embedded images available for AI search''"
    using aiSearch_zero_points [OF q, of s2 req _ n] s2 res
    by (auto simp: aiSearchError_plain numeral_3_eq_3)
  have c: "embedText w (clock s + 2) (queryOf req) = Inr [] \<or> qpoints s = [] \<longrightarrow>
        (\<exists>e. fst (aiSearch w req n s2) = Inl e)"
    using aiSearch_empty_embedding [OF q, of s2 req n] aiSearch_no_points_fails [OF q, of s2 req n] s2
    by auto
  have d: "embedText w (clock s + 2) (queryOf req) = Inr [] \<or> qpoints s = [] \<longrightarrow>
        \<not> res_success (fst (searchImages w req s)) \<and>
        res_searchType (fst (searchImages w req s)) = Some ''ai'' \<and>
        res_images (fst (searchImages w req s)) = None \<and>
        (res_status (fst (searchImages w req s)) = 400 \<or>
         res_status (fst (searchImages w req s)) = 500) \<and>
        images (snd (searchImages w req s)) = images s"
  proof
    assume "embedText w (clock s + 2) (queryOf req) = Inr [] \<or> qpoints s = []"
    with c obtain e where "fst (aiSearch w req n s2) = Inl e" by blast
    with res have "fst (searchImages w req s) = aiSearchError e" by simp
    with aiSearchError_tag [of e] im
    show "\<not> res_success (fst (searchImages w req s)) \<and>
        res_searchType (fst (searchImages w req s)) = Some ''ai'' \<and>
        res_images (fst (searchImages w req s)) = None \<and>
        (res_status (fst (searchImages w req s)) = 400 \<or>
         res_status (fst (searchImages w req s)) = 500) \<and>
        images (snd (searchImages w req s)) = images s" by simp
  qed
  from a b d
  show "(embedText w (clock s + 2) (queryOf req) = Inr [] \<longrightarrow>
        fst (searchImages w req s) = aiFailure ''Invalid embedding generated'') \<and>
     ((\<exists>v. embedText w (clock s + 2) (queryOf req) = Inr v \<and> v \<noteq> []) \<and>
      qdrantFault w (clock s + 3) = None \<and> qpoints s = [] \<longrightarrow>
        fst (searchImages w req s) = aiFailure ''No embedded images available for AI search'') \<and>
     (embedText w (clock s + 2) (queryOf req) = Inr [] \<or> qpoints s = [] \<longrightarrow>
        \<not> res_success (fst (searchImages w req s)) \<and>
        res_searchType (fst (searchImages w req s)) = Some ''ai'' \<and>
        res_images (fst (searchImages w req s)) = None \<and>
        (res_status (fst (searchImages w req s)) = 400 \<or>
         res_status (fst (searchImages w req s)) = 500) \<and>
        images (snd (searchImages w req s)) = images s)"
    by blast
qed

theorem ai_path_fails_loudly_witness:
  "quiet calmWorld \<and> hasQuery sunsetRequest \<and>
   dbFault calmWorld (clock (serverWith [sampleImage 1 ''q1'' Pending 0 None])) = None \<and>
   indexHealthyAt calmWorld
     ((serverWith [sampleImage 1 ''q1'' Pending 0 None])
        \<lparr>clock := Suc (clock (serverWith [sampleImage 1 ''q1'' Pending 0 None]))\<rparr>) \<and>
   isAIModelReady (serverWith [sampleImage 1 ''q1'' Pending 0 None]) \<and>
   qpoints (serverWith [sampleImage 1 ''q1'' Pending 0 None]) = [] \<and>
   fst (searchImages calmWorld sunsetRequest (serverWith [sampleImage 1 ''q1'' Pending 0 None]))
     = aiFailure ''No embedded images available for AI search'' \<and>
   fst (searchImages (calmWorld\<lparr>embedText := (\<lambda>k t. Inr [])\<rparr>) sunsetRequest indexedServer)
     = aiFailure ''Invalid embedding generated''"
proof -
  let ?s = "serverWith [sampleImage 1 ''q1'' Pending 0 None]"
  let ?w = "calmWorld\<lparr>embedText := (\<lambda>k t. Inr [])\<rparr>"
  have q: "quiet calmWorld" and q': "quiet ?w" by (simp_all add: quiet_def calmWorld_def)
  have hq: "hasQuery sunsetRequest"
    by (simp add: hasQuery_def queryOf_def sunsetRequest_def trim_def isWhitespace_def utf16_def)
  have db: "dbFault calmWorld (clock ?s) = None" and db': "dbFault ?w (clock indexedServer) = None"
    by (simp_all add: calmWorld_def)
  have ih: "indexHealthyAt calmWorld (?s\<lparr>clock := Suc (clock ?s)\<rparr>)"
    by (simp add: indexHealthyAt_def isQdrantConnected_def serverWith_def calmWorld_def)
  have ih': "indexHealthyAt ?w (indexedServer\<lparr>clock := Suc (clock indexedServer)\<rparr>)"
    by (simp add: indexHealthyAt_def isQdrantConnected_def indexedServer_def serverWith_def
        calmWorld_def)
  have mr: "isAIModelReady ?s" and mr': "isAIModelReady indexedServer"
    by (simp_all add: isAIModelReady_def indexedServer_def serverWith_def)
  have np: "qpoints ?s = []" by (simp add: serverWith_def)
  have e: "\<exists>v. embedText calmWorld (clock ?s + 2) (queryOf sunsetRequest) = Inr v \<and> v \<noteq> []"
    by (simp add: calmWorld_def)
  have f: "qdrantFault calmWorld (clock ?s + 3) = None" by (simp add: calmWorld_def)
  have e': "embedText ?w (clock indexedServer + 2) (queryOf sunsetRequest) = Inr []" by simp
  from ai_path_fails_loudly [of calmWorld sunsetRequest ?s] q hq db ih mr e f np
  have a: "fst (searchImages calmWorld sunsetRequest ?s)
             = aiFailure ''No embedded images available for AI search''"
    by blast
  from ai_path_fails_loudly [of ?w sunsetRequest indexedServer] q' hq db' ih' mr' e'
  have b: "fst (searchImages ?w sunsetRequest indexedServer)
             = aiFailure ''Invalid embedding generated''"
    by blast
  from q hq db ih mr np a b show ?thesis by blast
qed

section \<open>Ranking on the AI path\<close>

text \<open>
  C5: when the search handler answers 200 with type \<open>ai\<close>, the images it returns come
  from the nearest-neighbour search asked for \<open>limit * 3\<close> results with the embedding of
  the query: every returned image is a record of the store that passes the filters of
  the request and whose id is carried by a search result, its score being the score of
  the first such result (the default 0 is never used); the images are in descending
  order of score; a record that passes the filters and carries a result id but is not
  returned scores no more than any returned image; and for a limit that is not negative
  the number of images is the limit, or the number of such records when that is less.
\<close>

theorem ai_search_ranks_neighbours:
  "quiet w \<and> res_status (fst (searchImages w req s)) = 200 \<and>
   res_searchType (fst (searchImages w req s)) = Some ''ai'' \<longrightarrow>
     (\<exists>emb hits ranked.
        embedText w (clock s + 2) (queryOf req) = Inr emb \<and>
        hits = qdrantSearch w (clock s + 4) (qpoints s) emb (limitOf req * 3) \<and>
        res_images (fst (searchImages w req s)) = Some ranked \<and>
        (\<forall>i\<in>set ranked.
           i \<in> set (images s) \<and> baseFilter w req i \<and>
           (\<exists>h. find (\<lambda>r. hit_imageId r = Some (image_id i)) hits = Some h \<and>
                scoreOf hits i = hit_score h)) \<and>
        sorted_wrt (\<lambda>a b. scoreOf hits b \<le> scoreOf hits a) ranked \<and>
        (\<forall>x\<in>set (survivors w req hits (images s)).
           x \<notin> set ranked \<longrightarrow> (\<forall>y\<in>set ranked. scoreOf hits x \<le> scoreOf hits y)) \<and>
        (0 \<le> limitOf req \<longrightarrow>
           length ranked = min (nat (limitOf req)) (length (survivors w req hits (images s)))))"
proof
  assume h: "quiet w \<and> res_status (fst (searchImages w req s)) = 200 \<and>
   res_searchType (fst (searchImages w req s)) = Some ''ai''"
  then have q: "quiet w" and st: "res_status (fst (searchImages w req s)) = 200" by auto
  from h ai_success_path [of w req s]
  have pre: "hasQuery req" "dbFault w (clock s) = None"
    "indexHealthyAt w (s\<lparr>clock := Suc (clock s)\<rparr>)" "isAIModelReady s" by auto
  from searchImages_ai_path [OF q pre] obtain n s2 where
    s2: "clock s2 = Suc (Suc (clock s))" "images s2 = images s" "qpoints s2 = qpoints s"
    and res: "fst (searchImages w req s) =
             (case fst (aiSearch w req n s2) of Inr res \<Rightarrow> res | Inl e \<Rightarrow> aiSearchError e)"
    by blast
  have "\<exists>r. fst (aiSearch w req n s2) = Inr r"
  proof (cases "fst (aiSearch w req n s2)")
    case (Inl e)
    with res aiSearchError_tag [of e] st show ?thesis by auto
  next
    case (Inr r)
    then show ?thesis by blast
  qed
  then obtain r where r: "fst (aiSearch w req n s2) = Inr r" by blast
  with res have rr: "fst (searchImages w req s) = r" by simp
  from s2 have c4: "Suc (Suc (clock s2)) = clock s + 4" and c2: "clock s2 = clock s + 2"
    by simp_all
  from aiSearch_success [OF q r] obtain emb where
    emb0: "embedText w (clock s2) (queryOf req) = Inr emb"
    and im0: "res_images r =
       Some (slice0
               (sort_key (\<lambda>a. - scoreOf (qdrantSearch w (Suc (Suc (clock s2))) (qpoints s2) emb
                                            (limitOf req * 3)) a)
                  (survivors w req
                     (qdrantSearch w (Suc (Suc (clock s2))) (qpoints s2) emb (limitOf req * 3))
                     (images s2)))
               (limitOf req))"
    by blast
  from emb0 have emb: "embedText w (clock s + 2) (queryOf req) = Inr emb" unfolding c2 .
  from im0 have im: "res_images r =
       Some (slice0
               (sort_key (\<lambda>a. - scoreOf (qdrantSearch w (clock s + 4) (qpoints s) emb
                                            (limitOf req * 3)) a)
                  (survivors w req
                     (qdrantSearch w (clock s + 4) (qpoints s) emb (limitOf req * 3))
                     (images s)))
               (limitOf req))"
    unfolding c4 s2(2) s2(3) .
  let ?hits = "qdrantSearch w (clock s + 4) (qpoints s) emb (limitOf req * 3)"
  let ?sv = "survivors w req ?hits (images s)"
  let ?ranked = "slice0 (sort_key (\<lambda>a. - scoreOf ?hits a) ?sv) (limitOf req)"
  from slice0_prefix [of "sort_key (\<lambda>a. - scoreOf ?hits a) ?sv" "limitOf req"]
  obtain k where k: "?ranked = take k (sort_key (\<lambda>a. - scoreOf ?hits a) ?sv)"
    and kn: "0 \<le> limitOf req \<longrightarrow> k = nat (limitOf req)" by blast
  note rp = ranked_prefix [OF k]
  have mem: "\<forall>i\<in>set ?ranked.
           i \<in> set (images s) \<and> baseFilter w req i \<and>
           (\<exists>h. find (\<lambda>r. hit_imageId r = Some (image_id i)) ?hits = Some h \<and>
                scoreOf ?hits i = hit_score h)"
  proof
    fix i assume "i \<in> set ?ranked"
    with rp have "i \<in> set ?sv" by blast
    then have a: "i \<in> set (images s)" "baseFilter w req i" "image_id i \<in> set (imageIdsOf ?hits)"
      by (auto simp: survivors_def)
    from find_hit [OF a(3)] obtain h where
      "find (\<lambda>r. hit_imageId r = Some (image_id i)) ?hits = Some h" by blast
    then have "find (\<lambda>r. hit_imageId r = Some (image_id i)) ?hits = Some h \<and>
               scoreOf ?hits i = hit_score h"
      by (simp add: scoreOf_def)
    with a show "i \<in> set (images s) \<and> baseFilter w req i \<and>
           (\<exists>h. find (\<lambda>r. hit_imageId r = Some (image_id i)) ?hits = Some h \<and>
                scoreOf ?hits i = hit_score h)" by blast
  qed
  from rp kn have len: "0 \<le> limitOf req \<longrightarrow>
           length ?ranked = min (nat (limitOf req)) (length ?sv)" by simp
  from emb rr im mem rp len
  show "\<exists>emb hits ranked.
        embedText w (clock s + 2) (queryOf req) = Inr emb \<and>
        hits = qdrantSearch w (clock s + 4) (qpoints s) emb (limitOf req * 3) \<and>
        res_images (fst (searchImages w req s)) = Some ranked \<and>
        (\<forall>i\<in>set ranked.
           i \<in> set (images s) \<and> baseFilter w req i \<and>
           (\<exists>h. find (\<lambda>r. hit_imageId r = Some (image_id i)) hits = Some h \<and>
                scoreOf hits i = hit_score h)) \<and>
        sorted_wrt (\<lambda>a b. scoreOf hits b \<le> scoreOf hits a) ranked \<and>
        (\<forall>x\<in>set (survivors w req hits (images s)).
           x \<notin> set ranked \<longrightarrow> (\<forall>y\<in>set ranked. scoreOf hits x \<le> scoreOf hits y)) \<and>
        (0 \<le> limitOf req \<longrightarrow>
           length ranked = min (nat (limitOf req)) (length (survivors w req hits (images s))))"
    by (intro exI [of _ emb] exI [of _ ?hits] exI [of _ ?ranked]) simp
qed

lemma ranking_run:
  "fst (searchImages rankingWorld sunsetRequest indexedServer) =
     (reply 200 True None)
       \<lparr>res_images := Some [sampleImage 2 ''q2'' Completed 1 (Some 6)],
        res_searchType := Some ''ai'', res_unembeddedCount := Some 0, res_warning := None\<rparr>"
  by (simp add: searchImages_def hasQuery_def queryOf_def sunsetRequest_def trim_def
      isWhitespace_def utf16_def countDocuments_def useAISearch_def checkQdrantHealth_def
      isQdrantConnected_def isAIModelReady_def aiSearch_def generateTextEmbedding_def
      qdrant_getCollection_def qdrant_search_def Image_find_def imageIdsOf_def
      List.map_filter_def baseFilter_def scoreOf_def slice0_def limitOf_def await_def
      rankingWorld_def calmWorld_def indexedServer_def serverWith_def sampleImage_def Let_def)

theorem ai_search_ranks_neighbours_witness:
  "quiet rankingWorld \<and>
   res_status (fst (searchImages rankingWorld sunsetRequest indexedServer)) = 200 \<and>
   res_searchType (fst (searchImages rankingWorld sunsetRequest indexedServer)) = Some ''ai'' \<and>
   res_images (fst (searchImages rankingWorld sunsetRequest indexedServer))
     = Some [sampleImage 2 ''q2'' Completed 1 (Some 6)] \<and>
   (\<exists>hits ranked.
      hits = qdrantSearch rankingWorld (clock indexedServer + 4) (qpoints indexedServer) [1, 0]
               (limitOf sunsetRequest * 3) \<and>
      res_images (fst (searchImages rankingWorld sunsetRequest indexedServer)) = Some ranked \<and>
      sorted_wrt (\<lambda>a b. scoreOf hits b \<le> scoreOf hits a) ranked \<and>
      length ranked = min (nat (limitOf sunsetRequest))
                        (length (survivors rankingWorld sunsetRequest hits (images indexedServer))))"
proof -
  have q: "quiet rankingWorld" by (simp add: quiet_def rankingWorld_def calmWorld_def)
  have st: "res_status (fst (searchImages rankingWorld sunsetRequest indexedServer)) = 200"
    and ty: "res_searchType (fst (searchImages rankingWorld sunsetRequest indexedServer)) = Some ''ai''"
    and im: "res_images (fst (searchImages rankingWorld sunsetRequest indexedServer))
               = Some [sampleImage 2 ''q2'' Completed 1 (Some 6)]"
    by (simp_all add: ranking_run reply_def)
  have l: "0 \<le> limitOf sunsetRequest" by (simp add: limitOf_def sunsetRequest_def)
  have e: "embedText rankingWorld (clock indexedServer + 2) (queryOf sunsetRequest) = Inr [1, 0]"
    by (simp add: rankingWorld_def calmWorld_def)
  from ai_search_ranks_neighbours [of rankingWorld sunsetRequest indexedServer] q st ty
  obtain emb hits ranked where r:
    "embedText rankingWorld (clock indexedServer + 2) (queryOf sunsetRequest) = Inr emb"
    "hits = qdrantSearch rankingWorld (clock indexedServer + 4) (qpoints indexedServer) emb
              (limitOf sunsetRequest * 3)"
    "res_images (fst (searchImages rankingWorld sunsetRequest indexedServer)) = Some ranked"
    "sorted_wrt (\<lambda>a b. scoreOf hits b \<le> scoreOf hits a) ranked"
    "0 \<le> limitOf sunsetRequest \<longrightarrow>
       length ranked = min (nat (limitOf sunsetRequest))
                         (length (survivors rankingWorld sunsetRequest hits (images indexedServer)))"
    by blast
  from r(1) e have "emb = [1, 0]" by simp
  with r l have "\<exists>hits ranked.
      hits = qdrantSearch rankingWorld (clock indexedServer + 4) (qpoints indexedServer) [1, 0]
               (limitOf sunsetRequest * 3) \<and>
      res_images (fst (searchImages rankingWorld sunsetRequest indexedServer)) = Some ranked \<and>
      sorted_wrt (\<lambda>a b. scoreOf hits b \<le> scoreOf hits a) ranked \<and>
      length ranked = min (nat (limitOf sunsetRequest))
                        (length (survivors rankingWorld sunsetRequest hits (images indexedServer)))"
    by blast
  with q st ty im show ?thesis by blast
qed

section \<open>Deleting a record\<close>

text \<open>
  C9: deleting a record one owns, with the record store answering and ids distinct,
  answers 200; no record with that id remains and every other record stays; no
  collection refers to the id any more; when the deletion of the vector goes through,
  no point is left under the \<open>qdrantId\<close> of the record; and when it fails or is skipped
  the index is as before, and the record, its references and the answer are the same.
\<close>

theorem delete_removes_record_and_vector:
  "quiet w \<and> (\<forall>k. dbFault w k = None) \<and>
   find (\<lambda>x. image_id x = del_id req) (images s) = Some img \<and> owner img = del_user req \<and>
   distinct (map image_id (images s)) \<longrightarrow>
     fst (deleteImage w req s) = reply 200 True (Some ''Image deleted successfully'') \<and>
     del_id req \<notin> image_id ` set (images (snd (deleteImage w req s))) \<and>
     (\<forall>x\<in>set (images s). image_id x \<noteq> del_id req \<longrightarrow> x \<in> set (images (snd (deleteImage w req s)))) \<and>
     set (images (snd (deleteImage w req s))) \<subseteq> set (images s) \<and>
     (\<forall>c\<in>set (collections (snd (deleteImage w req s))). del_id req \<notin> set (collection_images c)) \<and>
     (vectorRemovable w img s \<longrightarrow> qdrantId img \<notin> fst ` set (qpoints (snd (deleteImage w req s)))) \<and>
     (\<not> vectorRemovable w img s \<longrightarrow> qpoints (snd (deleteImage w req s)) = qpoints s)"
proof
  assume h: "quiet w \<and> (\<forall>k. dbFault w k = None) \<and>
   find (\<lambda>x. image_id x = del_id req) (images s) = Some img \<and> owner img = del_user req \<and>
   distinct (map image_id (images s))"
  then have d: "distinct (map image_id (images s))" by simp
  from h deleteImage_run [of w req s img]
  have r: "fst (deleteImage w req s) = reply 200 True (Some ''Image deleted successfully'')"
    and i: "images (snd (deleteImage w req s)) = deleteFirst (del_id req) (images s)"
    and c: "collections (snd (deleteImage w req s)) =
           map (\<lambda>c. c\<lparr>collection_images := removeAll (del_id req) (collection_images c)\<rparr>)
             (collections s)"
    and p: "qpoints (snd (deleteImage w req s)) =
           (if vectorRemovable w img s
            then filter (\<lambda>kp. fst kp \<noteq> qdrantId img) (qpoints s) else qpoints s)"
    by auto
  have g: "del_id req \<notin> image_id ` set (images (snd (deleteImage w req s)))"
    unfolding i by (rule deleteFirst_gone [OF d])
  have k: "\<forall>x\<in>set (images s). image_id x \<noteq> del_id req \<longrightarrow>
             x \<in> set (images (snd (deleteImage w req s)))"
    unfolding i by (simp add: deleteFirst_keeps)
  have sb: "set (images (snd (deleteImage w req s))) \<subseteq> set (images s)"
    unfolding i by (rule deleteFirst_subset)
  have cl: "\<forall>c\<in>set (collections (snd (deleteImage w req s))). del_id req \<notin> set (collection_images c)"
    unfolding c by simp
  have v: "vectorRemovable w img s \<longrightarrow>
             qdrantId img \<notin> fst ` set (qpoints (snd (deleteImage w req s)))"
    unfolding p by auto
  have nv: "\<not> vectorRemovable w img s \<longrightarrow> qpoints (snd (deleteImage w req s)) = qpoints s"
    unfolding p by simp
  from r g k sb cl v nv
  show "fst (deleteImage w req s) = reply 200 True (Some ''Image deleted successfully'') \<and>
     del_id req \<notin> image_id ` set (images (snd (deleteImage w req s))) \<and>
     (\<forall>x\<in>set (images s). image_id x \<noteq> del_id req \<longrightarrow> x \<in> set (images (snd (deleteImage w req s)))) \<and>
     set (images (snd (deleteImage w req s))) \<subseteq> set (images s) \<and>
     (\<forall>c\<in>set (collections (snd (deleteImage w req s))). del_id req \<notin> set (collection_images c)) \<and>
     (vectorRemovable w img s \<longrightarrow> qdrantId img \<notin> fst ` set (qpoints (snd (deleteImage w req s)))) \<and>
     (\<not> vectorRemovable w img s \<longrightarrow> qpoints (snd (deleteImage w req s)) = qpoints s)"
    by blast
qed

theorem delete_removes_record_and_vector_witness:
  "quiet calmWorld \<and>
   find (\<lambda>x. image_id x = del_id \<lparr>del_user = 7, del_id = 1\<rparr>) (images indexedServer)
     = Some (sampleImage 1 ''q1'' Completed 1 (Some 5)) \<and>
   owner (sampleImage 1 ''q1'' Completed 1 (Some 5)) = del_user \<lparr>del_user = 7, del_id = 1\<rparr> \<and>
   distinct (map image_id (images indexedServer)) \<and>
   vectorRemovable calmWorld (sampleImage 1 ''q1'' Completed 1 (Some 5)) indexedServer \<and>
   fst (deleteImage calmWorld \<lparr>del_user = 7, del_id = 1\<rparr> indexedServer)
     = reply 200 True (Some ''Image deleted successfully'') \<and>
   qdrantId (sampleImage 1 ''q1'' Completed 1 (Some 5))
     \<notin> fst ` set (qpoints (snd (deleteImage calmWorld \<lparr>del_user = 7, del_id = 1\<rparr> indexedServer))) \<and>
   \<not> vectorRemovable (calmWorld\<lparr>qdrantFault := (\<lambda>k. Some (Error ''index down'' None))\<rparr>)
       (sampleImage 1 ''q1'' Completed 1 (Some 5)) indexedServer \<and>
   fst (deleteImage (calmWorld\<lparr>qdrantFault := (\<lambda>k. Some (Error ''index down'' None))\<rparr>)
          \<lparr>del_user = 7, del_id = 1\<rparr> indexedServer)
     = reply 200 True (Some ''Image deleted successfully'') \<and>
   1 \<notin> image_id ` set (images (snd (deleteImage
          (calmWorld\<lparr>qdrantFault := (\<lambda>k. Some (Error ''index down'' None))\<rparr>)
          \<lparr>del_user = 7, del_id = 1\<rparr> indexedServer)))"
proof -
  let ?req = "\<lparr>del_user = 7, del_id = 1\<rparr>"
  let ?img = "sampleImage 1 ''q1'' Completed 1 (Some 5)"
  let ?down = "calmWorld\<lparr>qdrantFault := (\<lambda>k. Some (Error ''index down'' None))\<rparr>"
  have q: "quiet calmWorld" and q': "quiet ?down" by (simp_all add: quiet_def calmWorld_def)
  have db: "\<forall>k. dbFault calmWorld k = None" and db': "\<forall>k. dbFault ?down k = None"
    by (simp_all add: calmWorld_def)
  have f: "find (\<lambda>x. image_id x = del_id ?req) (images indexedServer) = Some ?img"
    by (simp add: indexedServer_def serverWith_def sampleImage_def)
  have own: "owner ?img = del_user ?req" by (simp add: sampleImage_def)
  have d: "distinct (map image_id (images indexedServer))"
    by (simp add: indexedServer_def serverWith_def sampleImage_def)
  have v: "vectorRemovable calmWorld ?img indexedServer"
    by (simp add: vectorRemovable_def isQdrantConnected_def indexedServer_def serverWith_def
        sampleImage_def calmWorld_def utf16_def)
  have nv: "\<not> vectorRemovable ?down ?img indexedServer"
    by (simp add: vectorRemovable_def)
  from delete_removes_record_and_vector [of calmWorld ?req indexedServer ?img] q db f own d v
  have a: "fst (deleteImage calmWorld ?req indexedServer)
             = reply 200 True (Some ''Image deleted successfully'') \<and>
           qdrantId ?img \<notin> fst ` set (qpoints (snd (deleteImage calmWorld ?req indexedServer)))"
    by blast
  from delete_removes_record_and_vector [of ?down ?req indexedServer ?img] q' db' f own d
  have b: "fst (deleteImage ?down ?req indexedServer)
             = reply 200 True (Some ''Image deleted successfully'') \<and>
           del_id ?req \<notin> image_id ` set (images (snd (deleteImage ?down ?req indexedServer)))"
    by blast
  from b have b': "fst (deleteImage ?down ?req indexedServer)
             = reply 200 True (Some ''Image deleted successfully'') \<and>
           1 \<notin> image_id ` set (images (snd (deleteImage ?down ?req indexedServer)))"
    by simp
  from q f own d v a nv b' show ?thesis by blast
qed

end
